theory Spec2Isabelle
  imports Main "HOL-Library.Sublist"
begin

section \<open>The C++ primitives that tatra.cpp relies on\<close>

text \<open>
  Exceptions thrown by the standard library calls of the program
  (\<^verbatim>\<open>std::stoi\<close>, \<^verbatim>\<open>std::string::substr\<close>) and the one undefined behaviour the
  program can run into (overflow of a signed \<^verbatim>\<open>int\<close>) are values of this type.
  None of them is caught anywhere in tatra.cpp, so each one ends the process.
\<close>

datatype error = invalid_argument | out_of_range | signed_overflow

text \<open>\<^verbatim>\<open>int\<close> is 32 bits wide; \<^verbatim>\<open>size_t\<close> is 64 bits wide and wraps around.\<close>

definition INT_MAX :: int where
  "INT_MAX = 2147483647"

definition INT_MIN :: int where
  "INT_MIN = - 2147483648"

definition npos :: nat where
  "npos = 18446744073709551615"

definition size_add :: "nat \<Rightarrow> nat \<Rightarrow> nat" where
  "size_add a b = (a + b) mod 18446744073709551616"

definition size_sub :: "nat \<Rightarrow> nat \<Rightarrow> nat" where
  "size_sub a b = (a + 18446744073709551616 - b) mod 18446744073709551616"

text \<open>
  \<^verbatim>\<open>s.find(needle, pos)\<close>: the lowest index \<open>i \<ge> pos\<close> at which \<open>needle\<close> occurs in
  \<open>s\<close>, or \<open>npos\<close>. \<open>find_first\<close> searches a suffix and counts from its start.
\<close>

fun find_first :: "string \<Rightarrow> string \<Rightarrow> nat option" where
  "find_first needle [] = (if needle = [] then Some 0 else None)"
| "find_first needle (c # cs) =
     (if prefix needle (c # cs) then Some 0 else map_option Suc (find_first needle cs))"

definition str_find :: "string \<Rightarrow> string \<Rightarrow> nat \<Rightarrow> nat" where
  "str_find s needle pos =
     (if length s < pos then npos
      else case find_first needle (drop pos s) of None \<Rightarrow> npos | Some k \<Rightarrow> pos + k)"

text \<open>
  \<^verbatim>\<open>s.substr(pos, n)\<close> throws \<^verbatim>\<open>std::out_of_range\<close> when \<open>pos\<close> lies beyond the end and
  otherwise returns at most \<open>n\<close> characters from \<open>pos\<close> on.
\<close>

definition substr :: "string \<Rightarrow> nat \<Rightarrow> nat \<Rightarrow> error + string" where
  "substr s pos n = (if length s < pos then Inl out_of_range else Inr (take n (drop pos s)))"

text \<open>
  \<^verbatim>\<open>std::stoi\<close> (base 10): leading white space is skipped, one sign is accepted, the
  longest run of digits is converted. No digit at all is \<^verbatim>\<open>std::invalid_argument\<close>, a
  value outside \<^verbatim>\<open>int\<close> is \<^verbatim>\<open>std::out_of_range\<close>.
\<close>

definition isspace :: "char \<Rightarrow> bool" where
  "isspace c = (c \<in> set [CHR '' '', CHR 0x09, CHR 0x0A, CHR 0x0B, CHR 0x0C, CHR 0x0D])"

definition isdigit :: "char \<Rightarrow> bool" where
  "isdigit c = (48 \<le> (of_char c :: nat) \<and> (of_char c :: nat) \<le> 57)"

definition digit_val :: "char \<Rightarrow> nat" where
  "digit_val c = of_char c - 48"

fun dec_value :: "nat \<Rightarrow> string \<Rightarrow> nat" where
  "dec_value acc [] = acc"
| "dec_value acc (c # cs) = dec_value (acc * 10 + digit_val c) cs"

definition stoi :: "string \<Rightarrow> error + int" where
  "stoi str =
     (let s1 = dropWhile isspace str;
          neg = (s1 \<noteq> [] \<and> hd s1 = CHR ''-'');
          s2 = (if s1 \<noteq> [] \<and> (hd s1 = CHR ''-'' \<or> hd s1 = CHR ''+'') then tl s1 else s1);
          ds = takeWhile isdigit s2
      in if ds = [] then Inl invalid_argument
         else let v = (if neg then - int (dec_value 0 ds) else int (dec_value 0 ds))
              in if v < INT_MIN \<or> INT_MAX < v then Inl out_of_range else Inr v)"

text \<open>\<^verbatim>\<open>std::to_string(int)\<close> and \<^verbatim>\<open>cout << int\<close>: the decimal numeral, with a minus sign.\<close>

definition digit_char :: "nat \<Rightarrow> char" where
  "digit_char d = ''0123456789'' ! d"

fun dec_digits :: "nat \<Rightarrow> string" where
  "dec_digits n =
     (if n < 10 then [digit_char n]
      else dec_digits (n div 10) @ [digit_char (n mod 10)])"

declare dec_digits.simps [simp del]

definition to_string :: "int \<Rightarrow> string" where
  "to_string i = (if i < 0 then CHR ''-'' # dec_digits (nat (- i)) else dec_digits (nat i))"

section \<open>class TaskTracker\<close>

text \<open>The private field \<^verbatim>\<open>id\<close> is called \<open>task_id\<close> here, \<open>id\<close> being the identity of HOL.\<close>

record TaskTracker =
  task_id :: int
  isDeleted :: bool
  desc :: string
  status :: string
  createdAt :: string
  updatedAt :: string

text \<open>
  The two constructors: \<^verbatim>\<open>TaskTracker(int i)\<close> and the five-argument one. The methods
  \<^verbatim>\<open>addTask\<close>, \<^verbatim>\<open>updateTask\<close> and \<^verbatim>\<open>deleteTask\<close> of this class carry the class name
  here, TaskManager having methods of the same names.
\<close>

definition TaskTracker1 :: "int \<Rightarrow> TaskTracker" where
  "TaskTracker1 i =
     \<lparr>task_id = i, isDeleted = False, desc = [], status = [], createdAt = [], updatedAt = []\<rparr>"

definition TaskTracker5 :: "int \<Rightarrow> string \<Rightarrow> string \<Rightarrow> string \<Rightarrow> string \<Rightarrow> TaskTracker" where
  "TaskTracker5 i d s c u =
     \<lparr>task_id = i, isDeleted = False, desc = d, status = s, createdAt = c, updatedAt = u\<rparr>"

definition getId :: "TaskTracker \<Rightarrow> int" where
  "getId t = task_id t"

definition TaskTracker_addTask ::
  "string \<Rightarrow> string \<Rightarrow> string \<Rightarrow> string \<Rightarrow> TaskTracker \<Rightarrow> TaskTracker" where
  "TaskTracker_addTask d s c u t =
     t\<lparr>desc := d, status := s, createdAt := c, updatedAt := u, isDeleted := False\<rparr>"

definition TaskTracker_updateTask ::
  "string \<Rightarrow> string \<Rightarrow> string \<Rightarrow> TaskTracker \<Rightarrow> TaskTracker" where
  "TaskTracker_updateTask d s u t = t\<lparr>desc := d, status := s, updatedAt := u\<rparr>"

definition updateDescription :: "string \<Rightarrow> string \<Rightarrow> TaskTracker \<Rightarrow> TaskTracker" where
  "updateDescription d u t = t\<lparr>desc := d, updatedAt := u\<rparr>"

definition updateStatus :: "string \<Rightarrow> string \<Rightarrow> TaskTracker \<Rightarrow> TaskTracker" where
  "updateStatus s u t = t\<lparr>status := s, updatedAt := u\<rparr>"

definition TaskTracker_deleteTask :: "TaskTracker \<Rightarrow> TaskTracker" where
  "TaskTracker_deleteTask t = t\<lparr>isDeleted := True\<rparr>"

definition isTaskDeleted :: "TaskTracker \<Rightarrow> bool" where
  "isTaskDeleted t = isDeleted t"

text \<open>\<open>display\<close> returns the lines it writes to standard output: one, or none.\<close>

definition display :: "TaskTracker \<Rightarrow> string list" where
  "display t =
     (if \<not> isDeleted t
      then [''ID: '' @ to_string (task_id t) @ '' | '' @ desc t @ '' | Status: '' @ status t
            @ '' | Created: '' @ createdAt t @ '' | Updated: '' @ updatedAt t]
      else [])"

definition toJson :: "TaskTracker \<Rightarrow> string" where
  \<open>toJson t =
     (if isDeleted t then []
      else ''  {\<newline>    "id": '' @ to_string (task_id t) @ '',\<newline>''
           @ ''    "description": "'' @ desc t @ ''",\<newline>''
           @ ''    "status": "'' @ status t @ ''",\<newline>''
           @ ''    "createdAt": "'' @ createdAt t @ ''",\<newline>''
           @ ''    "updatedAt": "'' @ updatedAt t @ ''"\<newline>  }'')\<close>

section \<open>class TaskManager\<close>

text \<open>
  The manager owns the vector \<open>tasks\<close> and the counter \<open>nextId\<close>. The third field
  is the file system as the process sees it: the content of tasks.json, \<open>None\<close> when
  the file does not exist. The clock read by \<^verbatim>\<open>getCurrentTime\<close> is an argument of every
  operation that reads it.
\<close>

record TaskManager =
  tasks :: "TaskTracker list"
  nextId :: int
  disk :: "string option"

subsection \<open>loadTasks\<close>

text \<open>
  \<^verbatim>\<open>getline\<close> takes the characters up to the next newline and drops the newline; it
  fails when the stream has no character left.
\<close>

definition getline :: "string \<Rightarrow> (string \<times> string) option" where
  "getline stream =
     (if stream = [] then None
      else Some (takeWhile (\<lambda>c. c \<noteq> CHR 0x0A) stream,
                 drop 1 (dropWhile (\<lambda>c. c \<noteq> CHR 0x0A) stream)))"

function read_lines :: "string \<Rightarrow> string \<Rightarrow> string" where
  "read_lines stream content =
     (case getline stream of
        None \<Rightarrow> content
      | Some (line, rest) \<Rightarrow> read_lines rest (content @ line @ ''\<newline>''))"
  by pat_completeness auto
termination
proof (relation "measure (\<lambda>(stream, content). length stream)")
  show "wf (measure (\<lambda>(stream, content). length stream))"
    by simp
next
  fix stream content :: string and x2 :: "string \<times> string" and line rest :: string
  assume a: "getline stream = Some x2" "(line, rest) = x2"
  then have ne: "stream \<noteq> []" and r: "rest = drop 1 (dropWhile (\<lambda>c. c \<noteq> CHR 0x0A) stream)"
    by (auto simp: getline_def split: if_splits)
  have "length (dropWhile (\<lambda>c. c \<noteq> CHR 0x0A) stream) \<le> length stream"
    by (rule length_dropWhile_le)
  with ne r have "length rest < length stream"
    by (cases "dropWhile (\<lambda>c. c \<noteq> CHR 0x0A) stream") auto
  then show "((rest, content @ line @ ''\<newline>''), stream, content)
      \<in> measure (\<lambda>(stream, content). length stream)"
    by simp
qed

declare read_lines.simps [simp del]

text \<open>
  The three lines that read one string field: the start is the position of the key
  plus the constant the source adds, the end is the next double quote.
\<close>

definition string_field :: "string \<Rightarrow> string \<Rightarrow> nat \<Rightarrow> nat \<Rightarrow> error + string \<times> nat" where
  \<open>string_field content key off pos =
     (let fieldStart = size_add (str_find content key pos) off;
          fieldEnd = str_find content ''"'' fieldStart
      in case substr content fieldStart (size_sub fieldEnd fieldStart) of
           Inl e \<Rightarrow> Inl e
         | Inr v \<Rightarrow> Inr (v, fieldEnd))\<close>

text \<open>
  The \<^verbatim>\<open>while\<close> loop of loadTasks. It need not terminate (the position can move
  backwards when a key is missing), so not returning is the value \<open>None\<close>.
\<close>

partial_function (option) loadTasks_loop ::
  "string \<Rightarrow> nat \<Rightarrow> TaskTracker list \<Rightarrow> int \<Rightarrow> (error + TaskTracker list \<times> int) option" where
  \<open>loadTasks_loop content pos0 ts nid =
     (let pos = str_find content ''"id":'' pos0 in
      if pos = npos then Some (Inr (ts, nid))
      else
        let idStart = size_add (str_find content '':'' pos) 1;
            idEnd = str_find content '','' idStart
        in case substr content idStart (size_sub idEnd idStart) of
             Inl e \<Rightarrow> Some (Inl e)
           | Inr idstr \<Rightarrow>
        (case stoi idstr of
             Inl e \<Rightarrow> Some (Inl e)
           | Inr i \<Rightarrow>
        (case string_field content ''"description": "'' 16 pos of
             Inl e \<Rightarrow> Some (Inl e)
           | Inr (d, descEnd) \<Rightarrow>
        (case string_field content ''"status": "'' 11 pos of
             Inl e \<Rightarrow> Some (Inl e)
           | Inr (s, statusEnd) \<Rightarrow>
        (case string_field content ''"createdAt": "'' 14 pos of
             Inl e \<Rightarrow> Some (Inl e)
           | Inr (c, createdEnd) \<Rightarrow>
        (case string_field content ''"updatedAt": "'' 14 pos of
             Inl e \<Rightarrow> Some (Inl e)
           | Inr (u, updatedEnd) \<Rightarrow>
             if i = INT_MAX then Some (Inl signed_overflow)
             else loadTasks_loop content updatedEnd
                    (ts @ [TaskTracker5 i d s c u]) (max nid (i + 1))))))))\<close>

declare loadTasks_loop.simps [code]

definition loadTasks :: "TaskManager \<Rightarrow> (error + TaskManager) option" where
  "loadTasks m =
     (case disk m of
        None \<Rightarrow> Some (Inr m)
      | Some stream \<Rightarrow>
          let content = read_lines stream [] in
          if content = [] \<or> str_find content ''[]'' 0 \<noteq> npos then Some (Inr m)
          else (case loadTasks_loop content 0 (tasks m) (nextId m) of
                  None \<Rightarrow> None
                | Some (Inl e) \<Rightarrow> Some (Inl e)
                | Some (Inr (ts, nid)) \<Rightarrow> Some (Inr (m\<lparr>tasks := ts, nextId := nid\<rparr>))))"

subsection \<open>saveTasks\<close>

text \<open>
  The whole file is rewritten from the live tasks. The file is taken to be writable:
  the source does not look at the state of the stream either.
\<close>

fun saveTasks_loop :: "bool \<Rightarrow> TaskTracker list \<Rightarrow> string" where
  "saveTasks_loop first [] = []"
| "saveTasks_loop first (task # rest) =
     (if \<not> isTaskDeleted task
      then (if \<not> first then '',\<newline>'' else []) @ toJson task @ saveTasks_loop False rest
      else saveTasks_loop first rest)"

definition saveTasks :: "TaskManager \<Rightarrow> TaskManager" where
  "saveTasks m = m\<lparr>disk := Some (''[\<newline>'' @ saveTasks_loop True (tasks m) @ ''\<newline>]'')\<rparr>"

subsection \<open>The constructor and the public operations\<close>

text \<open>
  The constructor starts from the member initialisers (no task, \<open>nextId = 1\<close>) and
  calls loadTasks.
\<close>

definition TaskManager_new :: "string option \<Rightarrow> (error + TaskManager) option" where
  "TaskManager_new f = loadTasks \<lparr>tasks = [], nextId = 1, disk = f\<rparr>"

text \<open>
  Every operation returns the lines it prints and the manager afterwards.
  \<^verbatim>\<open>nextId++\<close> at \<open>INT_MAX\<close> is undefined behaviour.
\<close>

definition addTask :: "string \<Rightarrow> string \<Rightarrow> TaskManager \<Rightarrow> error + string list \<times> TaskManager" where
  "addTask description currentTime m =
     (if INT_MAX \<le> nextId m then Inl signed_overflow
      else
        let newTask = TaskTracker_addTask description ''todo'' currentTime currentTime
                        (TaskTracker1 (nextId m));
            m' = saveTasks (m\<lparr>nextId := nextId m + 1, tasks := tasks m @ [newTask]\<rparr>)
        in Inr ([''Task added successfully (ID: '' @ to_string (getId newTask) @ '')''], m'))"

text \<open>
  The four loops that look for the first live task with the given id and change it
  in place. \<open>None\<close>: the loop ran to its end without a match.
\<close>

fun updateTask_loop :: "int \<Rightarrow> string \<Rightarrow> string \<Rightarrow> TaskTracker list \<Rightarrow> TaskTracker list option" where
  "updateTask_loop i description now [] = None"
| "updateTask_loop i description now (task # rest) =
     (if getId task = i \<and> \<not> isTaskDeleted task
      then Some (updateDescription description now task # rest)
      else map_option ((#) task) (updateTask_loop i description now rest))"

definition not_found :: "int \<Rightarrow> string list" where
  "not_found i = [''Task with ID '' @ to_string i @ '' not found'']"

definition updateTask :: "int \<Rightarrow> string \<Rightarrow> string \<Rightarrow> TaskManager \<Rightarrow> string list \<times> TaskManager" where
  "updateTask i description now m =
     (case updateTask_loop i description now (tasks m) of
        Some ts \<Rightarrow> ([''Task updated successfully''], saveTasks (m\<lparr>tasks := ts\<rparr>))
      | None \<Rightarrow> (not_found i, m))"

fun deleteTask_loop :: "int \<Rightarrow> TaskTracker list \<Rightarrow> TaskTracker list option" where
  "deleteTask_loop i [] = None"
| "deleteTask_loop i (task # rest) =
     (if getId task = i \<and> \<not> isTaskDeleted task
      then Some (TaskTracker_deleteTask task # rest)
      else map_option ((#) task) (deleteTask_loop i rest))"

definition deleteTask :: "int \<Rightarrow> TaskManager \<Rightarrow> string list \<times> TaskManager" where
  "deleteTask i m =
     (case deleteTask_loop i (tasks m) of
        Some ts \<Rightarrow> ([''Task deleted successfully''], saveTasks (m\<lparr>tasks := ts\<rparr>))
      | None \<Rightarrow> (not_found i, m))"

fun markInProgress_loop :: "int \<Rightarrow> string \<Rightarrow> TaskTracker list \<Rightarrow> TaskTracker list option" where
  "markInProgress_loop i now [] = None"
| "markInProgress_loop i now (task # rest) =
     (if getId task = i \<and> \<not> isTaskDeleted task
      then Some (updateStatus ''in-progress'' now task # rest)
      else map_option ((#) task) (markInProgress_loop i now rest))"

definition markInProgress :: "int \<Rightarrow> string \<Rightarrow> TaskManager \<Rightarrow> string list \<times> TaskManager" where
  "markInProgress i now m =
     (case markInProgress_loop i now (tasks m) of
        Some ts \<Rightarrow> ([''Task marked as in progress''], saveTasks (m\<lparr>tasks := ts\<rparr>))
      | None \<Rightarrow> (not_found i, m))"

fun markDone_loop :: "int \<Rightarrow> string \<Rightarrow> TaskTracker list \<Rightarrow> TaskTracker list option" where
  "markDone_loop i now [] = None"
| "markDone_loop i now (task # rest) =
     (if getId task = i \<and> \<not> isTaskDeleted task
      then Some (updateStatus ''done'' now task # rest)
      else map_option ((#) task) (markDone_loop i now rest))"

definition markDone :: "int \<Rightarrow> string \<Rightarrow> TaskManager \<Rightarrow> string list \<times> TaskManager" where
  "markDone i now m =
     (case markDone_loop i now (tasks m) of
        Some ts \<Rightarrow> ([''Task marked as done''], saveTasks (m\<lparr>tasks := ts\<rparr>))
      | None \<Rightarrow> (not_found i, m))"

text \<open>The two listings: the lines printed so far and the flag \<^verbatim>\<open>found\<close> are threaded.\<close>

fun listAllTasks_loop :: "TaskTracker list \<Rightarrow> string list \<Rightarrow> bool \<Rightarrow> string list \<times> bool" where
  "listAllTasks_loop [] out found = (out, found)"
| "listAllTasks_loop (task # rest) out found =
     (if \<not> isTaskDeleted task then listAllTasks_loop rest (out @ display task) True
      else listAllTasks_loop rest out found)"

definition listAllTasks :: "TaskManager \<Rightarrow> string list" where
  "listAllTasks m =
     (case listAllTasks_loop (tasks m) [] False of
        (out, found) \<Rightarrow> if \<not> found then out @ [''No tasks found''] else out)"

fun listTasksByStatus_loop ::
  "string \<Rightarrow> TaskTracker list \<Rightarrow> string list \<Rightarrow> bool \<Rightarrow> string list \<times> bool" where
  "listTasksByStatus_loop st [] out found = (out, found)"
| "listTasksByStatus_loop st (task # rest) out found =
     (if \<not> isTaskDeleted task \<and> status task = st
      then listTasksByStatus_loop st rest (out @ display task) True
      else listTasksByStatus_loop st rest out found)"

definition listTasksByStatus :: "string \<Rightarrow> TaskManager \<Rightarrow> string list" where
  "listTasksByStatus st m =
     (case listTasksByStatus_loop st (tasks m) [] False of
        (out, found) \<Rightarrow> if \<not> found then out @ [''No tasks found with status: '' @ st] else out)"

section \<open>main\<close>

definition printUsage :: "string list" where
  \<open>printUsage =
     [''Usage:'',
      ''  task-cli add "description"        - Add a new task'',
      ''  task-cli update <id> "description" - Update task description'',
      ''  task-cli delete <id>               - Delete a task'',
      ''  task-cli mark-in-progress <id>     - Mark task as in progress'',
      ''  task-cli mark-done <id>            - Mark task as done'',
      ''  task-cli list                      - List all tasks'',
      ''  task-cli list done                 - List completed tasks'',
      ''  task-cli list todo                 - List todo tasks'',
      ''  task-cli list in-progress          - List in-progress tasks'']\<close>

text \<open>
  The body of \<^verbatim>\<open>main\<close> after the manager has been constructed. \<open>argv\<close> includes the
  program name, so \<open>argc = length argv\<close>. The result is the exit code, the lines
  printed and the manager at exit; an exception thrown by \<^verbatim>\<open>stoi\<close> ends the process
  without an exit code of \<^verbatim>\<open>main\<close>.
\<close>

definition main_body ::
  "string list \<Rightarrow> string \<Rightarrow> TaskManager \<Rightarrow> error + int \<times> string list \<times> TaskManager" where
  "main_body argv now manager =
     (let argc = length argv in
      if argc < 2 then Inr (1, printUsage, manager)
      else
        let command = argv ! 1 in
        if command = ''add'' then
          (if argc < 3 then Inr (1, [''Error: Please provide a task description''], manager)
           else case addTask (argv ! 2) now manager of
                  Inl e \<Rightarrow> Inl e
                | Inr (out, m) \<Rightarrow> Inr (0, out, m))
        else if command = ''update'' then
          (if argc < 4
           then Inr (1, [''Error: Please provide task ID and new description''], manager)
           else case stoi (argv ! 2) of
                  Inl e \<Rightarrow> Inl e
                | Inr i \<Rightarrow> (case updateTask i (argv ! 3) now manager of (out, m) \<Rightarrow> Inr (0, out, m)))
        else if command = ''delete'' then
          (if argc < 3 then Inr (1, [''Error: Please provide task ID''], manager)
           else case stoi (argv ! 2) of
                  Inl e \<Rightarrow> Inl e
                | Inr i \<Rightarrow> (case deleteTask i manager of (out, m) \<Rightarrow> Inr (0, out, m)))
        else if command = ''mark-in-progress'' then
          (if argc < 3 then Inr (1, [''Error: Please provide task ID''], manager)
           else case stoi (argv ! 2) of
                  Inl e \<Rightarrow> Inl e
                | Inr i \<Rightarrow> (case markInProgress i now manager of (out, m) \<Rightarrow> Inr (0, out, m)))
        else if command = ''mark-done'' then
          (if argc < 3 then Inr (1, [''Error: Please provide task ID''], manager)
           else case stoi (argv ! 2) of
                  Inl e \<Rightarrow> Inl e
                | Inr i \<Rightarrow> (case markDone i now manager of (out, m) \<Rightarrow> Inr (0, out, m)))
        else if command = ''list'' then
          (if argc = 2 then Inr (0, listAllTasks manager, manager)
           else if argc = 3 then
             (let st = argv ! 2 in
              if st = ''in-progress'' then Inr (0, listTasksByStatus ''in-progress'' manager, manager)
              else Inr (0, listTasksByStatus st manager, manager))
           else Inr (0, [], manager))
        else Inr (1, [''Error: Unknown command '' @ [CHR 0x27] @ command @ [CHR 0x27]] @ printUsage,
                  manager))"

text \<open>
  \<^verbatim>\<open>main\<close>: the manager is constructed (and the file loaded) before the arguments are
  looked at. \<open>None\<close>: the load loop does not return.
\<close>

definition main :: "string list \<Rightarrow> string \<Rightarrow> string option \<Rightarrow>
    (error + int \<times> string list \<times> TaskManager) option" where
  "main argv now f =
     (case TaskManager_new f of
        None \<Rightarrow> None
      | Some (Inl e) \<Rightarrow> Some (Inl e)
      | Some (Inr manager) \<Rightarrow> Some (main_body argv now manager))"

section \<open>Notions used in the statements\<close>

text \<open>
  The four lookup loops are instances of one scheme: change the first live task with
  the given id by \<open>f\<close>.
\<close>

fun change_first :: "(TaskTracker \<Rightarrow> TaskTracker) \<Rightarrow> int \<Rightarrow> TaskTracker list \<Rightarrow> TaskTracker list option" where
  "change_first f i [] = None"
| "change_first f i (task # rest) =
     (if getId task = i \<and> \<not> isTaskDeleted task then Some (f task # rest)
      else map_option ((#) task) (change_first f i rest))"

definition live_with :: "int \<Rightarrow> TaskTracker \<Rightarrow> bool" where
  "live_with i t = (getId t = i \<and> \<not> isTaskDeleted t)"

text \<open>The tasks that the two listings print: the live ones, in the order of the vector.\<close>

definition listed_by :: "string \<Rightarrow> TaskManager \<Rightarrow> TaskTracker list" where
  "listed_by st m = filter (\<lambda>t. \<not> isTaskDeleted t \<and> status t = st) (tasks m)"

definition listed :: "TaskManager \<Rightarrow> TaskTracker list" where
  "listed m = filter (\<lambda>t. \<not> isTaskDeleted t) (tasks m)"

text \<open>What the \<^verbatim>\<open>getline\<close> loop makes of a file: a final newline is added when missing.\<close>

definition ends_line :: "string \<Rightarrow> string" where
  "ends_line s = (if s = [] \<or> last s = CHR 0x0A then s else s @ ''\<newline>'')"

text \<open>The verbs of \<open>main\<close> that take an id, and the \<open>argc\<close> each of them asks for.\<close>

definition id_verbs :: "string set" where
  "id_verbs = {''update'', ''delete'', ''mark-in-progress'', ''mark-done''}"

definition required_argc :: "string \<Rightarrow> nat" where
  "required_argc verb = (if verb = ''update'' then 4 else 3)"

text \<open>
  A run of the store: a sequence of mutating operations, each with the clock reading
  it sees. \<open>run\<close> stops at the first operation that fails.
\<close>

datatype operation =
    Add string string
  | Update int string string
  | Delete int
  | MarkInProgress int string
  | MarkDone int string

fun apply_operation :: "operation \<Rightarrow> TaskManager \<Rightarrow> error + TaskManager" where
  "apply_operation (Add d now) m = (case addTask d now m of Inl e \<Rightarrow> Inl e | Inr (out, m') \<Rightarrow> Inr m')"
| "apply_operation (Update i d now) m = Inr (snd (updateTask i d now m))"
| "apply_operation (Delete i) m = Inr (snd (deleteTask i m))"
| "apply_operation (MarkInProgress i now) m = Inr (snd (markInProgress i now m))"
| "apply_operation (MarkDone i now) m = Inr (snd (markDone i now m))"

fun run :: "operation list \<Rightarrow> TaskManager \<Rightarrow> error + TaskManager" where
  "run [] m = Inr m"
| "run (operation # rest) m =
     (case apply_operation operation m of Inl e \<Rightarrow> Inl e | Inr m' \<Rightarrow> run rest m')"

text \<open>
  \<open>changed\<close> is the vector after a lookup loop, found or not. \<open>erase_nth\<close> removes an
  element physically. A store is \<open>saved\<close> when the file holds what \<open>saveTasks\<close> would
  write now.
\<close>

definition changed :: "(TaskTracker \<Rightarrow> TaskTracker) \<Rightarrow> int \<Rightarrow> TaskTracker list \<Rightarrow> TaskTracker list" where
  "changed f i ts = (case change_first f i ts of Some ts' \<Rightarrow> ts' | None \<Rightarrow> ts)"

definition erase_nth :: "nat \<Rightarrow> TaskManager \<Rightarrow> TaskManager" where
  "erase_nth k m = m\<lparr>tasks := take k (tasks m) @ drop (Suc k) (tasks m)\<rparr>"

definition saved :: "TaskManager \<Rightarrow> bool" where
  "saved m = (disk m = disk (saveTasks m))"

text \<open>A small store for the concrete instances of the theorems below.\<close>

definition example_task :: TaskTracker where
  "example_task = TaskTracker5 1 ''Buy milk'' ''todo'' ''Mon'' ''Mon''"

definition example_manager :: TaskManager where
  "example_manager = \<lparr>tasks = [example_task], nextId = 2, disk = None\<rparr>"

text \<open>A task whose description holds double quotes.\<close>

definition quoted_task :: TaskTracker where
  \<open>quoted_task = TaskTracker5 1 ''say "hi"'' ''todo'' ''Mon'' ''Mon''\<close>

text \<open>What one invocation of the program prints, and the file it leaves behind.\<close>

definition printed :: "(error + int \<times> string list \<times> TaskManager) option \<Rightarrow> string list" where
  "printed r = (case r of Some (Inr (code, out, m)) \<Rightarrow> out | _ \<Rightarrow> [])"

definition file_after :: "(error + int \<times> string list \<times> TaskManager) option \<Rightarrow> string option" where
  "file_after r = (case r of Some (Inr (code, out, m)) \<Rightarrow> disk m | _ \<Rightarrow> None)"

text \<open>
  Text that the file format can carry: no double quote and no \<open>[]\<close> in it. A task is
  \<open>storable\<close> when its four strings are such text and its id is an \<^verbatim>\<open>int\<close> below
  \<open>INT_MAX\<close>. \<open>max_size\<close> bounds the length of a \<^verbatim>\<open>std::string\<close>; \<open>next_after n ts\<close> is
  the counter that the load loop computes from \<open>n\<close> and the ids of \<open>ts\<close>.
\<close>

definition safe_text :: "string \<Rightarrow> bool" where
  \<open>safe_text s = (CHR ''"'' \<notin> set s \<and> find_first ''[]'' s = None)\<close>

definition storable :: "TaskTracker \<Rightarrow> bool" where
  "storable t = (safe_text (desc t) \<and> safe_text (status t) \<and> safe_text (createdAt t)
     \<and> safe_text (updatedAt t) \<and> INT_MIN \<le> task_id t \<and> task_id t < INT_MAX)"

definition max_size :: nat where
  "max_size = 9223372036854775807"

definition next_after :: "int \<Rightarrow> TaskTracker list \<Rightarrow> int" where
  "next_after n ts = foldl (\<lambda>k t. max k (getId t + 1)) n ts"

text \<open>What \<open>toJson\<close> writes for a live task, up to the closing quote of \<open>updatedAt\<close>.\<close>

definition record_text :: "TaskTracker \<Rightarrow> string" where
  \<open>record_text t =
     ''  {\<newline>    "id": '' @ to_string (task_id t) @ '',\<newline>    "description": "'' @ desc t
     @ ''",\<newline>    "status": "'' @ status t @ ''",\<newline>    "createdAt": "'' @ createdAt t
     @ ''",\<newline>    "updatedAt": "'' @ updatedAt t\<close>

text \<open>
  The store of a process started without a file, and the invariant of the ids: they
  are distinct and all below the counter.
\<close>

definition fresh :: TaskManager where
  "fresh = \<lparr>tasks = [], nextId = 1, disk = None\<rparr>"

definition ids_in_order :: "TaskManager \<Rightarrow> bool" where
  "ids_in_order m = (distinct (map getId (tasks m)) \<and> (\<forall>t\<in>set (tasks m). getId t < nextId m))"

text \<open>
  A session of the command line: one invocation of the program per description, each
  a new process that reads the file its predecessor left. \<open>add_session\<close> collects what
  the invocations print, and the file at the end.
\<close>

fun add_session ::
  "(string \<times> string) list \<Rightarrow> string option \<Rightarrow> (string list list \<times> string option) option" where
  "add_session [] f = Some ([], f)"
| "add_session ((d, now) # rest) f =
     (case main [''task-cli'', ''add'', d] now f of
        Some (Inr (code, out, m)) \<Rightarrow>
          (case add_session rest (disk m) of
             Some (outs, f') \<Rightarrow> Some (out # outs, f')
           | None \<Rightarrow> None)
      | _ \<Rightarrow> None)"

definition added_line :: "int \<Rightarrow> string list" where
  "added_line i = [''Task added successfully (ID: '' @ to_string i @ '')'']"

text \<open>
  A store that a new process reads back as it is: its tasks are live and storable,
  its counter is the one the loader computes, and the file is up to date.
\<close>

definition reloads_to_itself :: "TaskManager \<Rightarrow> bool" where
  "reloads_to_itself m =
     ((\<forall>t\<in>set (tasks m). \<not> isDeleted t \<and> storable t)
      \<and> nextId m = next_after 1 (tasks m)
      \<and> (disk m = None \<and> tasks m = [] \<or> saved m))"

text \<open>The tasks that \<open>add a\<close> on Monday and \<open>add b\<close> on Tuesday create in an empty store.\<close>

definition task_a :: TaskTracker where
  "task_a = \<lparr>task_id = 1, isDeleted = False, desc = ''a'', status = ''todo'',
     createdAt = ''Mon'', updatedAt = ''Mon''\<rparr>"

definition task_b :: TaskTracker where
  "task_b = \<lparr>task_id = 2, isDeleted = False, desc = ''b'', status = ''todo'',
     createdAt = ''Tue'', updatedAt = ''Tue''\<rparr>"

text \<open>
  A description that holds an \<open>updatedAt\<close> key and an \<open>id\<close> key, the file that
  \<open>add\<close> writes for it on Monday in an empty store, and the two records that the
  loader makes of that file.
\<close>

definition forged :: string where
  \<open>forged = ''x "updatedAt": "u" "id": 1,''\<close>

definition forged_file :: string where
  \<open>forged_file = ''[\<newline>  {\<newline>    "id": 1,\<newline>    "description": "x "updatedAt": "u" "id": 1,",\<newline>    "status": "todo",\<newline>    "createdAt": "Mon",\<newline>    "updatedAt": "Mon"\<newline>  }\<newline>]''\<close>

definition first_read :: TaskTracker where
  "first_read = TaskTracker5 1 ''x '' ''todo'' ''Mon'' ''u''"

definition second_read :: TaskTracker where
  "second_read = TaskTracker5 1 '' 1,\<newline>    '' ''todo'' ''Mon'' ''Mon''"

section \<open>Lookup and update (TaskManager::updateTask)\<close>

lemma updateTask_loop_change: "updateTask_loop i d now ts = change_first (updateDescription d now) i ts"
  by (induction ts) auto

lemma deleteTask_loop_change: "deleteTask_loop i ts = change_first TaskTracker_deleteTask i ts"
  by (induction ts) auto

lemma markInProgress_loop_change:
  "markInProgress_loop i now ts = change_first (updateStatus ''in-progress'' now) i ts"
  by (induction ts) auto

lemma markDone_loop_change: "markDone_loop i now ts = change_first (updateStatus ''done'' now) i ts"
  by (induction ts) auto

lemma change_first_None: "(change_first f i ts = None) = (\<forall>t\<in>set ts. \<not> live_with i t)"
  by (induction ts) (auto simp: live_with_def)

lemma change_first_Some:
  "change_first f i ts = Some ts' \<Longrightarrow>
   \<exists>pre t post. ts = pre @ t # post \<and> (\<forall>x\<in>set pre. \<not> live_with i x) \<and> live_with i t
     \<and> ts' = pre @ f t # post"
proof (induction ts arbitrary: ts')
  case Nil
  then show ?case by simp
next
  case (Cons a ts)
  show ?case
  proof (cases "live_with i a")
    case True
    with Cons.prems have "ts' = f a # ts" by (simp add: live_with_def)
    with True have "a # ts = [] @ a # ts \<and> (\<forall>x\<in>set []. \<not> live_with i x) \<and> live_with i a
        \<and> ts' = [] @ f a # ts"
      by simp
    then show ?thesis by blast
  next
    case False
    with Cons.prems obtain r where r: "change_first f i ts = Some r" and ts': "ts' = a # r"
      by (auto simp: live_with_def)
    from Cons.IH [OF r] obtain pre t post where
      "ts = pre @ t # post" "\<forall>x\<in>set pre. \<not> live_with i x" "live_with i t" "r = pre @ f t # post"
      by blast
    with False ts' have "a # ts = (a # pre) @ t # post \<and> (\<forall>x\<in>set (a # pre). \<not> live_with i x)
        \<and> live_with i t \<and> ts' = (a # pre) @ f t # post"
      by simp
    then show ?thesis by blast
  qed
qed

lemma change_first_all2:
  "change_first f i ts = Some ts' \<Longrightarrow> list_all2 (\<lambda>old new. new = old \<or> new = f old) ts ts'"
proof (induction ts arbitrary: ts')
  case Nil
  then show ?case by simp
next
  case (Cons a ts)
  then show ?case
    by (auto split: if_splits simp: list_all2_same list.rel_refl)
qed

lemma not_found_neq:
  "not_found i \<noteq> [''Task updated successfully'']"
  "not_found i \<noteq> [''Task deleted successfully'']"
  "not_found i \<noteq> [''Task marked as in progress'']"
  "not_found i \<noteq> [''Task marked as done'']"
  by (simp_all add: not_found_def)


lemma saveTasks_fields [simp]:
  "tasks (saveTasks m) = tasks m" "nextId (saveTasks m) = nextId m"
  by (simp_all add: saveTasks_def)



section \<open>Failure leaves the store alone; what a mutation changes\<close>

lemma change_first_map:
  assumes "\<And>t. g (f t) = g t"
  shows "change_first f i ts = Some ts' \<Longrightarrow> map g ts' = map g ts"
  by (induction ts arbitrary: ts') (auto split: if_splits simp: assms)

lemma op_map:
  assumes "\<And>t. g (f t) = g t"
  shows "map g (tasks (snd (case change_first f i (tasks m) of
            Some ts \<Rightarrow> (msg, saveTasks (m\<lparr>tasks := ts\<rparr>))
          | None \<Rightarrow> (nf, m)))) = map g (tasks m)"
  using change_first_map [of g f, OF assms] by (auto split: option.splits)

text \<open>
  Claim C9. When \<open>updateTask\<close>, \<open>deleteTask\<close>, \<open>markInProgress\<close> or \<open>markDone\<close> prints the
  not-found line, the manager it leaves is the manager it was given: the vector, the
  counter and the content of the file are all unchanged, no save has taken place.
\<close>

theorem not_found_changes_nothing:
  "(fst (updateTask i d now m) = not_found i \<longrightarrow> snd (updateTask i d now m) = m)
   \<and> (fst (deleteTask i m) = not_found i \<longrightarrow> snd (deleteTask i m) = m)
   \<and> (fst (markInProgress i now m) = not_found i \<longrightarrow> snd (markInProgress i now m) = m)
   \<and> (fst (markDone i now m) = not_found i \<longrightarrow> snd (markDone i now m) = m)"
  using not_found_neq [of i]
  by (auto simp: updateTask_def deleteTask_def markInProgress_def markDone_def
      split: option.splits)

theorem not_found_changes_nothing_witness:
  "fst (updateTask 7 ''x'' ''Tue'' example_manager) = not_found 7
   \<and> snd (updateTask 7 ''x'' ''Tue'' example_manager) = example_manager
   \<and> fst (deleteTask 7 example_manager) = not_found 7
   \<and> snd (deleteTask 7 example_manager) = example_manager
   \<and> fst (markInProgress 7 ''Tue'' example_manager) = not_found 7
   \<and> snd (markInProgress 7 ''Tue'' example_manager) = example_manager
   \<and> fst (markDone 7 ''Tue'' example_manager) = not_found 7
   \<and> snd (markDone 7 ''Tue'' example_manager) = example_manager"
proof -
  have u: "fst (updateTask 7 ''x'' ''Tue'' example_manager) = not_found 7"
    by (simp add: updateTask_def example_manager_def example_task_def TaskTracker5_def getId_def)
  have d: "fst (deleteTask 7 example_manager) = not_found 7"
    by (simp add: deleteTask_def example_manager_def example_task_def TaskTracker5_def getId_def)
  have p: "fst (markInProgress 7 ''Tue'' example_manager) = not_found 7"
    by (simp add: markInProgress_def example_manager_def example_task_def TaskTracker5_def getId_def)
  have n: "fst (markDone 7 ''Tue'' example_manager) = not_found 7"
    by (simp add: markDone_def example_manager_def example_task_def TaskTracker5_def getId_def)
  from u d p n not_found_changes_nothing [of 7 "''x''" "''Tue''" example_manager]
  show ?thesis by simp
qed

lemma change_first_found:
  assumes "\<forall>x\<in>set pre. \<not> live_with i x" "live_with i t"
  shows "change_first f i (pre @ t # post) = Some (pre @ f t # post)"
  using assms by (induction pre) (auto simp: live_with_def)

lemma op_found:
  assumes "tasks m = pre @ t # post" "\<forall>x\<in>set pre. \<not> live_with i x" "live_with i t"
  shows "updateTask i d now m =
           ([''Task updated successfully''],
            saveTasks (m\<lparr>tasks := pre @ updateDescription d now t # post\<rparr>))"
    and "markInProgress i now m =
           ([''Task marked as in progress''],
            saveTasks (m\<lparr>tasks := pre @ updateStatus ''in-progress'' now t # post\<rparr>))"
    and "markDone i now m =
           ([''Task marked as done''],
            saveTasks (m\<lparr>tasks := pre @ updateStatus ''done'' now t # post\<rparr>))"
  using assms(1) change_first_found [OF assms(2,3), of _ post]
  by (simp_all add: updateTask_def markInProgress_def markDone_def updateTask_loop_change
      markInProgress_loop_change markDone_loop_change)

text \<open>
  Claim C5. \<open>updateDescription\<close> and \<open>updateStatus\<close> set \<open>updatedAt\<close> to the time
  given and leave the id, \<open>createdAt\<close> and the tombstone alone; \<open>updateDescription\<close>
  also leaves the status alone. The unused \<open>TaskTracker::updateTask\<close> sets \<open>updatedAt\<close>
  too and keeps id and \<open>createdAt\<close>. In the store, \<open>updateTask\<close>, \<open>markInProgress\<close> and
  \<open>markDone\<close> change a task only through these two methods, called with the current
  time, and no operation on existing tasks changes any \<open>createdAt\<close> or any id;
  \<open>addTask\<close> appends and leaves the tasks it found as they were. When a live task
  with the id exists, the first one in the vector is replaced by the method applied to
  it with the current time, the success line is printed and the store is saved.
\<close>

theorem mutation_timestamps:
  "updatedAt (updateDescription d now t) = now
   \<and> createdAt (updateDescription d now t) = createdAt t
   \<and> getId (updateDescription d now t) = getId t
   \<and> status (updateDescription d now t) = status t
   \<and> isTaskDeleted (updateDescription d now t) = isTaskDeleted t
   \<and> updatedAt (updateStatus s now t) = now
   \<and> createdAt (updateStatus s now t) = createdAt t
   \<and> getId (updateStatus s now t) = getId t
   \<and> desc (updateStatus s now t) = desc t
   \<and> isTaskDeleted (updateStatus s now t) = isTaskDeleted t
   \<and> list_all2 (\<lambda>old new. new = old \<or> new = updateDescription d now old)
        (tasks m) (tasks (snd (updateTask i d now m)))
   \<and> list_all2 (\<lambda>old new. new = old \<or> new = updateStatus ''in-progress'' now old)
        (tasks m) (tasks (snd (markInProgress i now m)))
   \<and> list_all2 (\<lambda>old new. new = old \<or> new = updateStatus ''done'' now old)
        (tasks m) (tasks (snd (markDone i now m)))
   \<and> map createdAt (tasks (snd (updateTask i d now m))) = map createdAt (tasks m)
   \<and> map createdAt (tasks (snd (markInProgress i now m))) = map createdAt (tasks m)
   \<and> map createdAt (tasks (snd (markDone i now m))) = map createdAt (tasks m)
   \<and> map createdAt (tasks (snd (deleteTask i m))) = map createdAt (tasks m)
   \<and> map getId (tasks (snd (updateTask i d now m))) = map getId (tasks m)
   \<and> map getId (tasks (snd (markInProgress i now m))) = map getId (tasks m)
   \<and> map getId (tasks (snd (markDone i now m))) = map getId (tasks m)
   \<and> map status (tasks (snd (updateTask i d now m))) = map status (tasks m)
   \<and> (case addTask d now m of
          Inl e \<Rightarrow> True
        | Inr r \<Rightarrow> take (length (tasks m)) (tasks (snd r)) = tasks m)
   \<and> updatedAt (TaskTracker_updateTask d s now t) = now
   \<and> createdAt (TaskTracker_updateTask d s now t) = createdAt t
   \<and> getId (TaskTracker_updateTask d s now t) = getId t
   \<and> (\<forall>pre found post.
          tasks m = pre @ found # post \<and> (\<forall>x\<in>set pre. \<not> live_with i x) \<and> live_with i found
          \<longrightarrow>
            updateTask i d now m =
              ([''Task updated successfully''],
               saveTasks (m\<lparr>tasks := pre @ updateDescription d now found # post\<rparr>))
          \<and> markInProgress i now m =
              ([''Task marked as in progress''],
               saveTasks (m\<lparr>tasks := pre @ updateStatus ''in-progress'' now found # post\<rparr>))
          \<and> markDone i now m =
              ([''Task marked as done''],
               saveTasks (m\<lparr>tasks := pre @ updateStatus ''done'' now found # post\<rparr>)))"
proof -
  have r: "updatedAt (updateDescription d now t) = now
   \<and> createdAt (updateDescription d now t) = createdAt t
   \<and> getId (updateDescription d now t) = getId t
   \<and> status (updateDescription d now t) = status t
   \<and> isTaskDeleted (updateDescription d now t) = isTaskDeleted t
   \<and> updatedAt (updateStatus s now t) = now
   \<and> createdAt (updateStatus s now t) = createdAt t
   \<and> getId (updateStatus s now t) = getId t
   \<and> desc (updateStatus s now t) = desc t
   \<and> isTaskDeleted (updateStatus s now t) = isTaskDeleted t"
    by (simp add: updateDescription_def updateStatus_def getId_def isTaskDeleted_def)
  have a1: "list_all2 (\<lambda>old new. new = old \<or> new = updateDescription d now old)
        (tasks m) (tasks (snd (updateTask i d now m)))"
    by (auto simp: updateTask_def updateTask_loop_change list.rel_refl
        split: option.splits intro: change_first_all2)
  have a2: "list_all2 (\<lambda>old new. new = old \<or> new = updateStatus ''in-progress'' now old)
        (tasks m) (tasks (snd (markInProgress i now m)))"
    by (auto simp: markInProgress_def markInProgress_loop_change list.rel_refl
        split: option.splits intro: change_first_all2)
  have a3: "list_all2 (\<lambda>old new. new = old \<or> new = updateStatus ''done'' now old)
        (tasks m) (tasks (snd (markDone i now m)))"
    by (auto simp: markDone_def markDone_loop_change list.rel_refl
        split: option.splits intro: change_first_all2)
  have c1: "map createdAt (tasks (snd (updateTask i d now m))) = map createdAt (tasks m)"
    by (simp add: updateTask_def updateTask_loop_change op_map updateDescription_def)
  have c2: "map createdAt (tasks (snd (markInProgress i now m))) = map createdAt (tasks m)"
    by (simp add: markInProgress_def markInProgress_loop_change op_map updateStatus_def)
  have c3: "map createdAt (tasks (snd (markDone i now m))) = map createdAt (tasks m)"
    by (simp add: markDone_def markDone_loop_change op_map updateStatus_def)
  have c4: "map createdAt (tasks (snd (deleteTask i m))) = map createdAt (tasks m)"
    by (simp add: deleteTask_def deleteTask_loop_change op_map TaskTracker_deleteTask_def)
  have g1: "map getId (tasks (snd (updateTask i d now m))) = map getId (tasks m)"
    by (simp add: updateTask_def updateTask_loop_change op_map updateDescription_def getId_def)
  have g2: "map getId (tasks (snd (markInProgress i now m))) = map getId (tasks m)"
    by (simp add: markInProgress_def markInProgress_loop_change op_map updateStatus_def getId_def)
  have g3: "map getId (tasks (snd (markDone i now m))) = map getId (tasks m)"
    by (simp add: markDone_def markDone_loop_change op_map updateStatus_def getId_def)
  have s1: "map status (tasks (snd (updateTask i d now m))) = map status (tasks m)"
    by (simp add: updateTask_def updateTask_loop_change op_map updateDescription_def)
  have ad: "case addTask d now m of
          Inl e \<Rightarrow> True
        | Inr r \<Rightarrow> take (length (tasks m)) (tasks (snd r)) = tasks m"
    by (simp add: addTask_def Let_def)
  have ut: "updatedAt (TaskTracker_updateTask d s now t) = now
   \<and> createdAt (TaskTracker_updateTask d s now t) = createdAt t
   \<and> getId (TaskTracker_updateTask d s now t) = getId t"
    by (simp add: TaskTracker_updateTask_def getId_def)
  have fd: "\<forall>pre found post.
          tasks m = pre @ found # post \<and> (\<forall>x\<in>set pre. \<not> live_with i x) \<and> live_with i found
          \<longrightarrow>
            updateTask i d now m =
              ([''Task updated successfully''],
               saveTasks (m\<lparr>tasks := pre @ updateDescription d now found # post\<rparr>))
          \<and> markInProgress i now m =
              ([''Task marked as in progress''],
               saveTasks (m\<lparr>tasks := pre @ updateStatus ''in-progress'' now found # post\<rparr>))
          \<and> markDone i now m =
              ([''Task marked as done''],
               saveTasks (m\<lparr>tasks := pre @ updateStatus ''done'' now found # post\<rparr>))"
    using op_found by blast
  from r a1 a2 a3 c1 c2 c3 c4 g1 g2 g3 s1 ad ut fd show ?thesis by blast
qed

theorem mutation_timestamps_witness:
  "tasks (snd (markDone 1 ''Tue'' example_manager)) \<noteq> tasks example_manager
   \<and> tasks (snd (markDone 1 ''Tue'' example_manager)) = [updateStatus ''done'' ''Tue'' example_task]
   \<and> updatedAt (updateStatus ''done'' ''Tue'' example_task) = ''Tue''
   \<and> createdAt (updateStatus ''done'' ''Tue'' example_task) = ''Mon''
   \<and> tasks (snd (updateTask 2 ''c'' ''Wed'' \<lparr>tasks = [task_a, task_b], nextId = 3, disk = None\<rparr>))
       = [task_a, task_b\<lparr>desc := ''c'', updatedAt := ''Wed''\<rparr>]
   \<and> tasks (snd (markInProgress 2 ''Wed'' \<lparr>tasks = [task_a, task_b], nextId = 3, disk = None\<rparr>))
       = [task_a, task_b\<lparr>status := ''in-progress'', updatedAt := ''Wed''\<rparr>]
   \<and> tasks (snd (markDone 2 ''Wed'' \<lparr>tasks = [task_a, task_b], nextId = 3, disk = None\<rparr>))
       = [task_a, task_b\<lparr>status := ''done'', updatedAt := ''Wed''\<rparr>]
   \<and> fst (markInProgress 2 ''Wed'' \<lparr>tasks = [task_a, task_b], nextId = 3, disk = None\<rparr>)
       = [''Task marked as in progress'']"
proof -
  let ?m = "\<lparr>tasks = [task_a, task_b], nextId = 3, disk = None\<rparr>"
  have n: "tasks (snd (markDone 1 ''Tue'' example_manager)) \<noteq> tasks example_manager"
    by (simp add: markDone_def example_manager_def example_task_def TaskTracker5_def getId_def
        isTaskDeleted_def updateStatus_def)
  have c: "createdAt example_task = ''Mon''"
    by (simp add: example_task_def TaskTracker5_def)
  from mutation_timestamps [of "''x''" "''Tue''" example_task "''done''" example_manager 1] n c
  have one: "tasks (snd (markDone 1 ''Tue'' example_manager)) \<noteq> tasks example_manager
   \<and> tasks (snd (markDone 1 ''Tue'' example_manager)) = [updateStatus ''done'' ''Tue'' example_task]
   \<and> updatedAt (updateStatus ''done'' ''Tue'' example_task) = ''Tue''
   \<and> createdAt (updateStatus ''done'' ''Tue'' example_task) = ''Mon''"
    by (auto simp: example_manager_def list_all2_Cons1)
  have h: "tasks ?m = [task_a] @ task_b # [] \<and> (\<forall>x\<in>set [task_a]. \<not> live_with 2 x)
      \<and> live_with 2 task_b"
    by (simp add: live_with_def getId_def isTaskDeleted_def task_a_def task_b_def)
  from mutation_timestamps [of "''c''" "''Wed''" task_b "''done''" ?m 2] h
  have two: "updateTask 2 ''c'' ''Wed'' ?m =
              ([''Task updated successfully''],
               saveTasks (?m\<lparr>tasks := [task_a] @ updateDescription ''c'' ''Wed'' task_b # []\<rparr>))
          \<and> markInProgress 2 ''Wed'' ?m =
              ([''Task marked as in progress''],
               saveTasks (?m\<lparr>tasks := [task_a] @ updateStatus ''in-progress'' ''Wed'' task_b # []\<rparr>))
          \<and> markDone 2 ''Wed'' ?m =
              ([''Task marked as done''],
               saveTasks (?m\<lparr>tasks := [task_a] @ updateStatus ''done'' ''Wed'' task_b # []\<rparr>))"
    by blast
  from two have three:
    "tasks (snd (updateTask 2 ''c'' ''Wed'' ?m)) = [task_a, task_b\<lparr>desc := ''c'', updatedAt := ''Wed''\<rparr>]
     \<and> tasks (snd (markInProgress 2 ''Wed'' ?m))
         = [task_a, task_b\<lparr>status := ''in-progress'', updatedAt := ''Wed''\<rparr>]
     \<and> tasks (snd (markDone 2 ''Wed'' ?m)) = [task_a, task_b\<lparr>status := ''done'', updatedAt := ''Wed''\<rparr>]
     \<and> fst (markInProgress 2 ''Wed'' ?m) = [''Task marked as in progress'']"
    by (simp add: updateDescription_def updateStatus_def)
  from one three show ?thesis by blast
qed

text \<open>
  Claim C6. \<open>TaskTracker::deleteTask\<close> sets the tombstone and changes no other field:
  id, description, status, \<open>createdAt\<close> and \<open>updatedAt\<close> are what they were. In the
  store, \<open>deleteTask\<close> changes a task only through this method, so no \<open>updatedAt\<close> is
  refreshed by a deletion.
\<close>

theorem markDeleted_frame:
  "isTaskDeleted (TaskTracker_deleteTask t)
   \<and> getId (TaskTracker_deleteTask t) = getId t
   \<and> desc (TaskTracker_deleteTask t) = desc t
   \<and> status (TaskTracker_deleteTask t) = status t
   \<and> createdAt (TaskTracker_deleteTask t) = createdAt t
   \<and> updatedAt (TaskTracker_deleteTask t) = updatedAt t
   \<and> TaskTracker.more (TaskTracker_deleteTask t) = TaskTracker.more t
   \<and> list_all2 (\<lambda>old new. new = old \<or> new = TaskTracker_deleteTask old)
        (tasks m) (tasks (snd (deleteTask i m)))
   \<and> map updatedAt (tasks (snd (deleteTask i m))) = map updatedAt (tasks m)
   \<and> nextId (snd (deleteTask i m)) = nextId m"
proof -
  have r: "isTaskDeleted (TaskTracker_deleteTask t)
   \<and> getId (TaskTracker_deleteTask t) = getId t
   \<and> desc (TaskTracker_deleteTask t) = desc t
   \<and> status (TaskTracker_deleteTask t) = status t
   \<and> createdAt (TaskTracker_deleteTask t) = createdAt t
   \<and> updatedAt (TaskTracker_deleteTask t) = updatedAt t
   \<and> TaskTracker.more (TaskTracker_deleteTask t) = TaskTracker.more t"
    by (simp add: TaskTracker_deleteTask_def getId_def isTaskDeleted_def)
  have a: "list_all2 (\<lambda>old new. new = old \<or> new = TaskTracker_deleteTask old)
        (tasks m) (tasks (snd (deleteTask i m)))"
    by (auto simp: deleteTask_def deleteTask_loop_change list.rel_refl
        split: option.splits intro: change_first_all2)
  have u: "map updatedAt (tasks (snd (deleteTask i m))) = map updatedAt (tasks m)"
    by (simp add: deleteTask_def deleteTask_loop_change op_map TaskTracker_deleteTask_def)
  have n: "nextId (snd (deleteTask i m)) = nextId m"
    by (simp add: deleteTask_def split: option.splits)
  from r a u n show ?thesis by simp
qed

theorem markDeleted_frame_witness:
  "tasks (snd (deleteTask 1 example_manager)) = [TaskTracker_deleteTask example_task]
   \<and> TaskTracker_deleteTask example_task \<noteq> example_task
   \<and> updatedAt (TaskTracker_deleteTask example_task) = ''Mon''"
proof -
  have n: "tasks (snd (deleteTask 1 example_manager)) \<noteq> tasks example_manager"
    by (simp add: deleteTask_def example_manager_def example_task_def TaskTracker5_def getId_def
        isTaskDeleted_def TaskTracker_deleteTask_def)
  have c: "updatedAt example_task = ''Mon''" "\<not> isTaskDeleted example_task"
    by (simp_all add: example_task_def TaskTracker5_def isTaskDeleted_def)
  from markDeleted_frame [of example_task example_manager 1] n c
  show ?thesis
    by (auto simp: example_manager_def list_all2_Cons1)
qed

section \<open>Listing\<close>

lemma listTasksByStatus_loop_eq:
  "listTasksByStatus_loop st ts out found =
     (out @ concat (map display (filter (\<lambda>t. \<not> isTaskDeleted t \<and> status t = st) ts)),
      found \<or> filter (\<lambda>t. \<not> isTaskDeleted t \<and> status t = st) ts \<noteq> [])"
  by (induction ts arbitrary: out found) auto

lemma listAllTasks_loop_eq:
  "listAllTasks_loop ts out found =
     (out @ concat (map display (filter (\<lambda>t. \<not> isTaskDeleted t) ts)),
      found \<or> filter (\<lambda>t. \<not> isTaskDeleted t) ts \<noteq> [])"
  by (induction ts arbitrary: out found) auto

lemma listAllTasks_eq:
  "listAllTasks m = (if listed m = [] then [''No tasks found'']
                     else concat (map display (listed m)))"
  by (simp add: listAllTasks_def listAllTasks_loop_eq listed_def)

lemma display_live_lines:
  "length (concat (map display (filter (\<lambda>t. \<not> isTaskDeleted t \<and> P t) ts)))
     = length (filter (\<lambda>t. \<not> isTaskDeleted t \<and> P t) ts)"
  by (induction ts) (auto simp: display_def isTaskDeleted_def)

text \<open>
  Claim C8. \<open>listTasksByStatus\<close> prints one line for each live task whose status is
  equal, as a string, to the status asked for, in the order of the vector, and nothing
  else. When there is no such task (an unknown status included) it prints only the
  notice that nothing was found, and \<open>main\<close> exits with code 0.
\<close>

theorem listTasksByStatus_exact:
  "listTasksByStatus st m =
     (if listed_by st m = [] then [''No tasks found with status: '' @ st]
      else concat (map display (listed_by st m)))
   \<and> length (concat (map display (listed_by st m))) = length (listed_by st m)
   \<and> main_body [prog, ''list'', st] now m = Inr (0, listTasksByStatus st m, m)"
proof -
  have 1: "listTasksByStatus st m =
     (if listed_by st m = [] then [''No tasks found with status: '' @ st]
      else concat (map display (listed_by st m)))"
    by (simp add: listTasksByStatus_def listTasksByStatus_loop_eq listed_by_def)
  have 2: "length (concat (map display (listed_by st m))) = length (listed_by st m)"
    unfolding listed_by_def by (rule display_live_lines)
  have 3: "main_body [prog, ''list'', st] now m = Inr (0, listTasksByStatus st m, m)"
    by (simp add: main_body_def)
  from 1 2 3 show ?thesis by simp
qed

theorem listTasksByStatus_exact_witness:
  "listTasksByStatus ''Todo'' example_manager = [''No tasks found with status: Todo'']
   \<and> listTasksByStatus ''todo'' example_manager = display example_task
   \<and> main_body [''task-cli'', ''list'', ''Todo''] ''Tue'' example_manager
       = Inr (0, [''No tasks found with status: Todo''], example_manager)"
proof -
  have a: "listed_by ''Todo'' example_manager = []"
    by (simp add: listed_by_def example_manager_def example_task_def TaskTracker5_def)
  have b: "listed_by ''todo'' example_manager = [example_task]"
    by (simp add: listed_by_def example_manager_def example_task_def TaskTracker5_def
        isTaskDeleted_def)
  from a b listTasksByStatus_exact [of "''Todo''" example_manager "''task-cli''" "''Tue''"]
    listTasksByStatus_exact [of "''todo''" example_manager "''task-cli''" "''Tue''"]
  show ?thesis by simp
qed

section \<open>Reading the file: the guard of loadTasks\<close>

lemma find_first_occurs:
  "s = pre @ needle @ post \<Longrightarrow> \<exists>k\<le>length pre. find_first needle s = Some k"
proof (induction pre arbitrary: s)
  case Nil
  show ?case
  proof (cases s)
    case Nil
    with \<open>s = [] @ needle @ post\<close> show ?thesis by simp
  next
    case (Cons c cs)
    have "prefix needle (needle @ post)" by simp
    with Cons \<open>s = [] @ needle @ post\<close> have "find_first needle s = Some 0"
      by (metis append_Nil find_first.simps(2))
    then show ?thesis by simp
  qed
next
  case (Cons a pre)
  from Cons.IH [of "pre @ needle @ post"] obtain k where
    k: "k \<le> length pre" "find_first needle (pre @ needle @ post) = Some k"
    by blast
  with Cons.prems show ?case by auto
qed

lemma getline_ends_line:
  assumes "getline s = Some (line, rest)"
  shows "line @ ''\<newline>'' @ ends_line rest = ends_line s"
proof -
  let ?P = "\<lambda>c. c \<noteq> CHR 0x0A"
  from assms have ne: "s \<noteq> []" and l: "line = takeWhile ?P s"
    and r: "rest = drop 1 (dropWhile ?P s)"
    by (auto simp: getline_def split: if_splits)
  have s: "s = line @ dropWhile ?P s" using l by simp
  show ?thesis
  proof (cases "dropWhile ?P s")
    case Nil
    then have "\<forall>c\<in>set s. c \<noteq> CHR 0x0A" by (simp add: dropWhile_eq_Nil_conv)
    with ne have "last s \<noteq> CHR 0x0A" using last_in_set by blast
    moreover from Nil l have "line = s" by (simp add: takeWhile_eq_all_conv dropWhile_eq_Nil_conv)
    moreover have "rest = []" unfolding r Nil by simp
    ultimately show ?thesis using ne by (simp add: ends_line_def)
  next
    case (Cons c cs)
    then have c: "c = CHR 0x0A" using hd_dropWhile [of ?P s] by auto
    from Cons r have rest: "rest = cs" by simp
    from s Cons c have s': "s = line @ CHR 0x0A # cs" by simp
    show ?thesis
    proof (cases "cs = []")
      case True
      with s' rest show ?thesis by (simp add: ends_line_def)
    next
      case False
      with s' have "last s = last cs" by simp
      with s' rest False show ?thesis by (simp add: ends_line_def)
    qed
  qed
qed

lemma read_lines_eq: "read_lines s content = content @ ends_line s"
proof (induction s content rule: read_lines.induct)
  case (1 stream content)
  show ?case
  proof (cases "getline stream")
    case None
    then have "stream = []" by (simp add: getline_def split: if_splits)
    then show ?thesis by (simp add: read_lines.simps [of "[]"] getline_def ends_line_def)
  next
    case (Some p)
    obtain line rest where p: "p = (line, rest)" by (cases p)
    from "1.IH" [OF Some p [symmetric]] have "read_lines rest (content @ line @ ''\<newline>'')
        = (content @ line @ ''\<newline>'') @ ends_line rest" .
    moreover have "line @ ''\<newline>'' @ ends_line rest = ends_line stream"
      using getline_ends_line Some p by simp
    ultimately show ?thesis using Some p by (simp add: read_lines.simps [of stream])
  qed
qed

lemma ends_line_prefix: "\<exists>e. ends_line s = s @ e"
  by (simp add: ends_line_def)

text \<open>
  Claim C10. When the file contains the two characters \<open>[]\<close> anywhere, inside a
  description as well, \<open>loadTasks\<close> returns without touching the manager: the
  constructor leaves no task and \<open>nextId = 1\<close>, whatever records the file holds. (The
  length bound is the one every C++ string satisfies.)
\<close>

theorem brackets_discard_file:
  assumes "f = pre @ ''[]'' @ post" and "length f < npos"
  shows "loadTasks \<lparr>tasks = ts, nextId = n, disk = Some f\<rparr>
           = Some (Inr \<lparr>tasks = ts, nextId = n, disk = Some f\<rparr>)
         \<and> TaskManager_new (Some f) = Some (Inr \<lparr>tasks = [], nextId = 1, disk = Some f\<rparr>)"
proof -
  obtain e where e: "ends_line f = f @ e" using ends_line_prefix by blast
  with assms(1) have "read_lines f [] = pre @ ''[]'' @ (post @ e)"
    by (simp add: read_lines_eq)
  from find_first_occurs [OF this] obtain k where
    k: "k \<le> length pre" "find_first ''[]'' (read_lines f []) = Some k"
    by blast
  from k(1) assms have "k \<noteq> npos" by simp
  with k(2) have "str_find (read_lines f []) ''[]'' 0 \<noteq> npos"
    by (simp add: str_find_def)
  then have "loadTasks \<lparr>tasks = ts', nextId = n', disk = Some f\<rparr>
           = Some (Inr \<lparr>tasks = ts', nextId = n', disk = Some f\<rparr>)" for ts' n'
    by (simp add: loadTasks_def)
  then show ?thesis by (simp add: TaskManager_new_def)
qed

theorem brackets_discard_file_witness:
  \<open>TaskManager_new (Some ''[{"id": 1, "description": "fix [] bug", "status": "todo", "createdAt": "Mon", "updatedAt": "Mon"}]'')
     = Some (Inr \<lparr>tasks = [], nextId = 1,
          disk = Some ''[{"id": 1, "description": "fix [] bug", "status": "todo", "createdAt": "Mon", "updatedAt": "Mon"}]''\<rparr>)\<close>
  using brackets_discard_file [of
      \<open>''[{"id": 1, "description": "fix [] bug", "status": "todo", "createdAt": "Mon", "updatedAt": "Mon"}]''\<close>
      \<open>''[{"id": 1, "description": "fix ''\<close>
      \<open>'' bug", "status": "todo", "createdAt": "Mon", "updatedAt": "Mon"}]''\<close>]
  by (simp add: npos_def)

section \<open>Exit codes of main\<close>

lemma op_not_found:
  "\<forall>t\<in>set (tasks m). \<not> live_with i t \<Longrightarrow>
   updateTask i d now m = (not_found i, m) \<and> deleteTask i m = (not_found i, m)
   \<and> markInProgress i now m = (not_found i, m) \<and> markDone i now m = (not_found i, m)"
  using change_first_None [of _ i "tasks m"]
  by (simp add: updateTask_def deleteTask_def markInProgress_def markDone_def
      updateTask_loop_change deleteTask_loop_change markInProgress_loop_change
      markDone_loop_change)

text \<open>
  Claim C7 says that the exit code is 1 when the id has no live task. The operations
  return nothing to \<open>main\<close>, which falls through to \<^verbatim>\<open>return 0\<close>: deleting id 99 from an
  empty store prints the not-found line and exits with 0.
\<close>

theorem exit_code_not_found_counterexample:
  "main [''task-cli'', ''delete'', ''99''] ''Tue'' None
     = Some (Inr (0, [''Task with ID 99 not found''], \<lparr>tasks = [], nextId = 1, disk = None\<rparr>))"
  by (simp add: main_def TaskManager_new_def loadTasks_def main_body_def stoi_def isspace_def
      isdigit_def digit_val_def INT_MAX_def INT_MIN_def deleteTask_def not_found_def
      to_string_def dec_digits.simps digit_char_def)

text \<open>
  Claim C7, amended. For the verbs update, delete, mark-in-progress and mark-done the
  exit code is 1 when a required argument is missing. With the arguments present,
  an id that \<open>stoi\<close> rejects ends the process with that exception, and for an id that
  \<open>stoi\<close> accepts the exit code is 0, on success and also when no live task has the
  id (then the not-found line is printed and the store is unchanged).
\<close>

theorem exit_codes:
  assumes "1 < length argv" and "argv ! 1 \<in> id_verbs"
  shows "(length argv < required_argc (argv ! 1) \<longrightarrow>
            (\<exists>out. main_body argv now m = Inr (1, out, m)))
       \<and> (required_argc (argv ! 1) \<le> length argv \<longrightarrow>
            (\<forall>e. stoi (argv ! 2) = Inl e \<longrightarrow> main_body argv now m = Inl e)
          \<and> (\<forall>i. stoi (argv ! 2) = Inr i \<longrightarrow>
                (\<exists>out m'. main_body argv now m = Inr (0, out, m'))
              \<and> ((\<forall>t\<in>set (tasks m). \<not> live_with i t) \<longrightarrow>
                   main_body argv now m = Inr (0, not_found i, m))))"
proof -
  from assms(2) consider "argv ! 1 = ''update''" | "argv ! 1 = ''delete''"
    | "argv ! 1 = ''mark-in-progress''" | "argv ! 1 = ''mark-done''"
    by (auto simp: id_verbs_def)
  then show ?thesis
  proof cases
    case 1
    with assms(1) show ?thesis
      using op_not_found [of m _ "argv ! 3" now]
      by (auto simp: main_body_def required_argc_def split: prod.splits)
  next
    case 2
    with assms(1) show ?thesis
      using op_not_found [of m _ "argv ! 3" now]
      by (auto simp: main_body_def required_argc_def split: prod.splits)
  next
    case 3
    with assms(1) show ?thesis
      using op_not_found [of m _ "argv ! 3" now]
      by (auto simp: main_body_def required_argc_def split: prod.splits)
  next
    case 4
    with assms(1) show ?thesis
      using op_not_found [of m _ "argv ! 3" now]
      by (auto simp: main_body_def required_argc_def split: prod.splits)
  qed
qed

theorem exit_codes_witness:
  "main_body [''task-cli'', ''update'', ''7''] ''Tue'' example_manager
      = Inr (1, [''Error: Please provide task ID and new description''], example_manager)
   \<and> main_body [''task-cli'', ''update'', ''7'', ''x''] ''Tue'' example_manager
      = Inr (0, not_found 7, example_manager)
   \<and> fst (projr (main_body [''task-cli'', ''mark-done'', ''1''] ''Tue'' example_manager)) = 0
   \<and> main_body [''task-cli'', ''delete'', ''seven''] ''Tue'' example_manager
      = Inl invalid_argument"
proof -
  have s7: "stoi ''7'' = Inr 7" and s1: "stoi ''1'' = Inr 1"
    and sx: "stoi ''seven'' = Inl invalid_argument"
    by (simp_all add: stoi_def isspace_def isdigit_def digit_val_def INT_MAX_def INT_MIN_def)
  have nl: "\<forall>t\<in>set (tasks example_manager). \<not> live_with 7 t"
    by (simp add: example_manager_def example_task_def TaskTracker5_def live_with_def getId_def)
  have a: "main_body [''task-cli'', ''update'', ''7''] ''Tue'' example_manager
      = Inr (1, [''Error: Please provide task ID and new description''], example_manager)"
    by (simp add: main_body_def)
  have b: "main_body [''task-cli'', ''update'', ''7'', ''x''] ''Tue'' example_manager
      = Inr (0, not_found 7, example_manager)"
    using exit_codes [of "[''task-cli'', ''update'', ''7'', ''x'']" "''Tue''" example_manager] s7 nl
    by (simp add: id_verbs_def required_argc_def)
  have c: "fst (projr (main_body [''task-cli'', ''mark-done'', ''1''] ''Tue'' example_manager)) = 0"
    using exit_codes [of "[''task-cli'', ''mark-done'', ''1'']" "''Tue''" example_manager] s1
    by (auto simp: id_verbs_def required_argc_def)
  have d: "main_body [''task-cli'', ''delete'', ''seven''] ''Tue'' example_manager
      = Inl invalid_argument"
    using exit_codes [of "[''task-cli'', ''delete'', ''seven'']" "''Tue''" example_manager] sx
    by (simp add: id_verbs_def required_argc_def)
  from a b c d show ?thesis by simp
qed

section \<open>Tombstoned tasks under later operations\<close>

lemma change_first_keeps_deleted:
  assumes "change_first f i ts = Some ts'"
  shows "length ts' = length ts \<and> (\<forall>k<length ts. isTaskDeleted (ts ! k) \<longrightarrow> ts' ! k = ts ! k)"
proof -
  from change_first_Some [OF assms] obtain pre t post where
    p: "ts = pre @ t # post" "live_with i t" "ts' = pre @ f t # post"
    by blast
  have "ts' ! k = ts ! k" if "k < length ts" "isTaskDeleted (ts ! k)" for k
  proof (cases "k = length pre")
    case True
    with p that show ?thesis by (simp add: live_with_def)
  next
    case False
    with p show ?thesis by (simp add: nth_append nth_Cons')
  qed
  with p show ?thesis by simp
qed

lemma op_tasks:
  "tasks (snd (updateTask i d now m)) = changed (updateDescription d now) i (tasks m)"
  "tasks (snd (deleteTask i m)) = changed TaskTracker_deleteTask i (tasks m)"
  "tasks (snd (markInProgress i now m)) = changed (updateStatus ''in-progress'' now) i (tasks m)"
  "tasks (snd (markDone i now m)) = changed (updateStatus ''done'' now) i (tasks m)"
  by (simp_all add: updateTask_def deleteTask_def markInProgress_def markDone_def changed_def
      updateTask_loop_change deleteTask_loop_change markInProgress_loop_change
      markDone_loop_change split: option.splits)

lemma changed_keeps_deleted:
  assumes "k < length ts" "isTaskDeleted (ts ! k)"
  shows "k < length (changed f i ts) \<and> changed f i ts ! k = ts ! k"
  using assms change_first_keeps_deleted [of f i ts]
  by (auto simp: changed_def split: option.splits)

lemma apply_operation_keeps_deleted:
  assumes "k < length (tasks m)" "isTaskDeleted (tasks m ! k)" "apply_operation operation m = Inr m'"
  shows "k < length (tasks m') \<and> tasks m' ! k = tasks m ! k"
proof (cases operation)
  case (Add d now)
  with assms show ?thesis
    by (auto simp: addTask_def Let_def nth_append split: if_splits)
next
  case (Update i d now)
  with assms(3) have "tasks m' = changed (updateDescription d now) i (tasks m)"
    by (auto simp: op_tasks)
  with changed_keeps_deleted [OF assms(1,2)] show ?thesis by simp
next
  case (Delete i)
  with assms(3) have "tasks m' = changed TaskTracker_deleteTask i (tasks m)"
    by (auto simp: op_tasks)
  with changed_keeps_deleted [OF assms(1,2)] show ?thesis by simp
next
  case (MarkInProgress i now)
  with assms(3) have "tasks m' = changed (updateStatus ''in-progress'' now) i (tasks m)"
    by (auto simp: op_tasks)
  with changed_keeps_deleted [OF assms(1,2)] show ?thesis by simp
next
  case (MarkDone i now)
  with assms(3) have "tasks m' = changed (updateStatus ''done'' now) i (tasks m)"
    by (auto simp: op_tasks)
  with changed_keeps_deleted [OF assms(1,2)] show ?thesis by simp
qed

lemma run_keeps_deleted:
  "k < length (tasks m) \<Longrightarrow> isTaskDeleted (tasks m ! k) \<Longrightarrow> run ops m = Inr m' \<Longrightarrow>
   k < length (tasks m') \<and> tasks m' ! k = tasks m ! k"
proof (induction ops arbitrary: m)
  case Nil
  then show ?case by simp
next
  case (Cons a ops)
  from Cons.prems(3) obtain m1 where a: "apply_operation a m = Inr m1" and r: "run ops m1 = Inr m'"
    by (auto split: sum.splits)
  from apply_operation_keeps_deleted [OF Cons.prems(1,2) a]
  have 1: "k < length (tasks m1)" "tasks m1 ! k = tasks m ! k" by simp_all
  with Cons.prems(2) have "isTaskDeleted (tasks m1 ! k)" by simp
  from Cons.IH [OF 1(1) this r] 1(2) show ?case by simp
qed

lemma saveTasks_saved [simp]: "saved (saveTasks m)"
  by (simp add: saved_def saveTasks_def)

lemma op_saved:
  "saved m \<Longrightarrow> saved (snd (updateTask i d now m))"
  "saved m \<Longrightarrow> saved (snd (deleteTask i m))"
  "saved m \<Longrightarrow> saved (snd (markInProgress i now m))"
  "saved m \<Longrightarrow> saved (snd (markDone i now m))"
  by (simp_all add: updateTask_def deleteTask_def markInProgress_def markDone_def
      split: option.splits)

lemma apply_operation_saved:
  "saved m \<Longrightarrow> apply_operation operation m = Inr m' \<Longrightarrow> saved m'"
  by (cases operation) (auto simp: addTask_def Let_def op_saved split: if_splits)

lemma run_saved: "saved m \<Longrightarrow> run ops m = Inr m' \<Longrightarrow> saved m'"
proof (induction ops arbitrary: m)
  case Nil
  then show ?case by simp
next
  case (Cons a ops)
  from Cons.prems(2) obtain m1 where a: "apply_operation a m = Inr m1" and r: "run ops m1 = Inr m'"
    by (auto split: sum.splits)
  from Cons.IH [OF apply_operation_saved [OF Cons.prems(1) a] r] show ?case .
qed

lemma saveTasks_loop_live:
  "saveTasks_loop first ts = saveTasks_loop first (filter (\<lambda>t. \<not> isTaskDeleted t) ts)"
  by (induction ts arbitrary: first) auto

lemma filter_live_erase:
  assumes "k < length ts" "isTaskDeleted (ts ! k)"
  shows "filter (\<lambda>t. \<not> isTaskDeleted t \<and> P t) (take k ts @ drop (Suc k) ts)
       = filter (\<lambda>t. \<not> isTaskDeleted t \<and> P t) ts"
proof -
  have "ts = take k ts @ ts ! k # drop (Suc k) ts"
    using assms(1) by (rule id_take_nth_drop)
  then have "filter (\<lambda>t. \<not> isTaskDeleted t \<and> P t) ts
      = filter (\<lambda>t. \<not> isTaskDeleted t \<and> P t) (take k ts @ ts ! k # drop (Suc k) ts)"
    by simp
  also have "\<dots> = filter (\<lambda>t. \<not> isTaskDeleted t \<and> P t) (take k ts @ drop (Suc k) ts)"
    using assms(2) by simp
  finally show ?thesis by simp
qed

lemma erased_unseen:
  assumes "k < length (tasks m)" "isTaskDeleted (tasks m ! k)"
  shows "listAllTasks (erase_nth k m) = listAllTasks m"
    and "listTasksByStatus st (erase_nth k m) = listTasksByStatus st m"
    and "disk (saveTasks (erase_nth k m)) = disk (saveTasks m)"
proof -
  show "listAllTasks (erase_nth k m) = listAllTasks m"
    using filter_live_erase [OF assms, of "\<lambda>t. True"]
    by (simp add: listAllTasks_eq listed_def erase_nth_def)
  show "listTasksByStatus st (erase_nth k m) = listTasksByStatus st m"
    using filter_live_erase [OF assms, of "\<lambda>t. status t = st"]
    by (simp add: listTasksByStatus_def listTasksByStatus_loop_eq erase_nth_def)
  have "saveTasks_loop True (take k (tasks m) @ drop (Suc k) (tasks m)) = saveTasks_loop True (tasks m)"
    using filter_live_erase [OF assms, of "\<lambda>t. True"]
      saveTasks_loop_live [of True "take k (tasks m) @ drop (Suc k) (tasks m)"]
      saveTasks_loop_live [of True "tasks m"]
    by simp
  then show "disk (saveTasks (erase_nth k m)) = disk (saveTasks m)"
    by (simp add: saveTasks_def erase_nth_def)
qed

section \<open>Saving and reloading: where the loader does not read back what was saved\<close>

lemma find_first_step:
  "find_first needle (c # cs) =
     (if prefix needle (c # cs) then Some 0 else map_option (\<lambda>k. k + 1) (find_first needle cs))"
  by (simp add: map_option_case split: option.splits)

lemmas eval_defs = str_find_def string_field_def substr_def size_add_def size_sub_def npos_def
  stoi_def isspace_def isdigit_def digit_val_def INT_MAX_def INT_MIN_def find_first_step
  TaskTracker5_def

lemma quoted_file:
  \<open>disk (saveTasks \<lparr>tasks = [quoted_task], nextId = 2, disk = None\<rparr>) =
   Some ''[\<newline>  {\<newline>    "id": 1,\<newline>    "description": "say "hi"",\<newline>    "status": "todo",\<newline>    "createdAt": "Mon",\<newline>    "updatedAt": "Mon"\<newline>  }\<newline>]''\<close>
  by (simp add: saveTasks_def quoted_task_def TaskTracker5_def isTaskDeleted_def toJson_def
      to_string_def dec_digits.simps digit_char_def)

lemma quoted_loop:
  \<open>loadTasks_loop ''[\<newline>  {\<newline>    "id": 1,\<newline>    "description": "say "hi"",\<newline>    "status": "todo",\<newline>    "createdAt": "Mon",\<newline>    "updatedAt": "Mon"\<newline>  }\<newline>]\<newline>'' 0 [] 1
     = Some (Inr ([TaskTracker5 1 ''say '' ''todo'' ''Mon'' ''Mon''], 2))\<close>
  apply (subst loadTasks_loop.simps)
  apply (simp add: eval_defs del: find_first.simps(2))
  apply (subst loadTasks_loop.simps)
  apply (simp add: eval_defs del: find_first.simps(2))
  done

text \<open>
  Claim C1 asks that saving and reloading gives back the live records, also for
  descriptions with quotes. \<open>toJson\<close> writes the description unescaped and the loader
  takes the text up to the next double quote: the task described as \<open>say "hi"\<close> is
  saved, and the constructor reading that file finds the description \<open>say \<close>.
\<close>

theorem quote_cuts_description:
  \<open>TaskManager_new (disk (saveTasks \<lparr>tasks = [quoted_task], nextId = 2, disk = None\<rparr>))
     = Some (Inr \<lparr>tasks = [TaskTracker5 1 ''say '' ''todo'' ''Mon'' ''Mon''], nextId = 2,
          disk = disk (saveTasks \<lparr>tasks = [quoted_task], nextId = 2, disk = None\<rparr>)\<rparr>)
   \<and> desc quoted_task = ''say "hi"''\<close>
proof -
  have \<open>TaskManager_new (Some ''[\<newline>  {\<newline>    "id": 1,\<newline>    "description": "say "hi"",\<newline>    "status": "todo",\<newline>    "createdAt": "Mon",\<newline>    "updatedAt": "Mon"\<newline>  }\<newline>]'')
     = Some (Inr \<lparr>tasks = [TaskTracker5 1 ''say '' ''todo'' ''Mon'' ''Mon''], nextId = 2,
          disk = Some ''[\<newline>  {\<newline>    "id": 1,\<newline>    "description": "say "hi"",\<newline>    "status": "todo",\<newline>    "createdAt": "Mon",\<newline>    "updatedAt": "Mon"\<newline>  }\<newline>]''\<rparr>)\<close>
    unfolding TaskManager_new_def loadTasks_def read_lines_eq
    by (simp add: ends_line_def quoted_loop str_find_def npos_def find_first_step
        del: find_first.simps(2))
  then show ?thesis
    unfolding quoted_file by (simp add: quoted_task_def TaskTracker5_def)
qed

text \<open>
  Claim C2 asks that the ids assigned by successive adds increase strictly, also
  across a reload. Two invocations of the program, starting without a file: the
  first adds a task described as \<open>[]\<close> and prints id 1; the second reads the file the
  first one wrote, finds \<open>[]\<close> in it, loads nothing, and prints id 1 again.
\<close>

theorem id_one_assigned_twice:
  "printed (main [''task-cli'', ''add'', ''[]''] ''Mon'' None)
     = [''Task added successfully (ID: 1)'']
   \<and> printed (main [''task-cli'', ''add'', ''x''] ''Tue''
        (file_after (main [''task-cli'', ''add'', ''[]''] ''Mon'' None)))
     = [''Task added successfully (ID: 1)'']"
proof -
  have 1: \<open>main [''task-cli'', ''add'', ''[]''] ''Mon'' None
     = Some (Inr (0, [''Task added successfully (ID: 1)''],
         \<lparr>tasks = [\<lparr>task_id = 1, isDeleted = False, desc = ''[]'', status = ''todo'',
              createdAt = ''Mon'', updatedAt = ''Mon''\<rparr>], nextId = 2,
          disk = Some ''[\<newline>  {\<newline>    "id": 1,\<newline>    "description": "[]",\<newline>    "status": "todo",\<newline>    "createdAt": "Mon",\<newline>    "updatedAt": "Mon"\<newline>  }\<newline>]''\<rparr>))\<close>
    by (simp add: main_def TaskManager_new_def loadTasks_def main_body_def addTask_def
        INT_MAX_def TaskTracker_addTask_def TaskTracker1_def getId_def saveTasks_def
        isTaskDeleted_def toJson_def to_string_def dec_digits.simps digit_char_def)
  have 2: \<open>TaskManager_new (Some ''[\<newline>  {\<newline>    "id": 1,\<newline>    "description": "[]",\<newline>    "status": "todo",\<newline>    "createdAt": "Mon",\<newline>    "updatedAt": "Mon"\<newline>  }\<newline>]'')
     = Some (Inr \<lparr>tasks = [], nextId = 1, disk = Some ''[\<newline>  {\<newline>    "id": 1,\<newline>    "description": "[]",\<newline>    "status": "todo",\<newline>    "createdAt": "Mon",\<newline>    "updatedAt": "Mon"\<newline>  }\<newline>]''\<rparr>)\<close>
    unfolding TaskManager_new_def loadTasks_def read_lines_eq
    by (simp add: ends_line_def str_find_def npos_def find_first_step
        del: find_first.simps(2))
  show ?thesis
    unfolding 1 printed_def file_after_def
    by (simp add: main_def 2 main_body_def addTask_def INT_MAX_def TaskTracker_addTask_def
        TaskTracker1_def getId_def to_string_def dec_digits.simps digit_char_def)
qed

section \<open>Saving and reloading: text that the format can carry\<close>

text \<open>Decimal numerals: \<open>stoi\<close> reads back what \<open>to_string\<close> writes.\<close>

lemma digit_char_all:
  "\<forall>n<10. digit_val (digit_char n) = n \<and> isdigit (digit_char n)
     \<and> digit_char n \<in> set ''0123456789''"
  unfolding digit_char_def digit_val_def isdigit_def
  by (simp add: eval_nat_numeral All_less_Suc)

lemma digit_char_props:
  assumes "n < 10"
  shows "digit_val (digit_char n) = n" and "isdigit (digit_char n)"
    and "digit_char n \<in> set ''0123456789''"
  using assms digit_char_all by blast+

lemma dec_digits_set: "set (dec_digits n) \<subseteq> set ''0123456789''"
proof (induction n rule: dec_digits.induct)
  case (1 n)
  show ?case
  proof (cases "n < 10")
    case True
    with digit_char_props(3) [of n] show ?thesis by (simp add: dec_digits.simps [of n])
  next
    case False
    have "n mod 10 < 10" by simp
    from digit_char_props(3) [OF this] "1.IH" [OF False] False show ?thesis
      by (simp add: dec_digits.simps [of n])
  qed
qed

lemma dec_digits_nonempty: "dec_digits n \<noteq> []"
  by (simp add: dec_digits.simps [of n])

lemma dec_digits_isdigit: "c \<in> set (dec_digits n) \<Longrightarrow> isdigit c"
proof -
  assume "c \<in> set (dec_digits n)"
  with dec_digits_set have "c \<in> set ''0123456789''" by blast
  then show ?thesis by (auto simp: isdigit_def)
qed

lemma dec_value_snoc: "dec_value acc (xs @ [c]) = dec_value acc xs * 10 + digit_val c"
  by (induction xs arbitrary: acc) auto

lemma dec_value_dec_digits: "dec_value 0 (dec_digits n) = n"
proof (induction n rule: dec_digits.induct)
  case (1 n)
  show ?case
  proof (cases "n < 10")
    case True
    with digit_char_props(1) [of n] show ?thesis by (simp add: dec_digits.simps [of n])
  next
    case False
    have "n mod 10 < 10" by simp
    from digit_char_props(1) [OF this] "1.IH" [OF False] False show ?thesis
      by (simp add: dec_digits.simps [of n] dec_value_snoc)
  qed
qed

lemma to_string_chars: "c \<in> set (to_string i) \<Longrightarrow> c = CHR ''-'' \<or> isdigit c"
  by (auto simp: to_string_def dec_digits_isdigit split: if_splits)

lemma isdigit_plain: "isdigit c \<Longrightarrow> \<not> isspace c \<and> c \<noteq> CHR ''-'' \<and> c \<noteq> CHR ''+''"
  by (auto simp: isdigit_def isspace_def)

lemma stoi_digits:
  assumes "ds \<noteq> []" "\<forall>c\<in>set ds. isdigit c" "int (dec_value 0 ds) \<le> INT_MAX"
  shows "stoi ('' '' @ ds) = Inr (int (dec_value 0 ds))"
proof -
  from assms(1) obtain c cs where cs: "ds = c # cs" by (cases ds) auto
  with assms(2) have "isdigit c" by simp
  from isdigit_plain [OF this] have c: "\<not> isspace c" "c \<noteq> CHR ''-''" "c \<noteq> CHR ''+''"
    by simp_all
  have tw: "takeWhile isdigit (c # cs) = c # cs"
    using assms(2) cs by (simp add: takeWhile_eq_all_conv)
  have dw: "dropWhile isspace ('' '' @ ds) = c # cs"
    using c(1) cs by (simp add: isspace_def)
  have "INT_MIN \<le> int (dec_value 0 ds)" by (simp add: INT_MIN_def)
  with assms(3) show ?thesis
    unfolding stoi_def dw Let_def using c(2,3) cs by (simp add: tw del: takeWhile.simps)
qed

lemma stoi_minus_digits:
  assumes "ds \<noteq> []" "\<forall>c\<in>set ds. isdigit c" "INT_MIN \<le> - int (dec_value 0 ds)"
  shows "stoi ('' '' @ CHR ''-'' # ds) = Inr (- int (dec_value 0 ds))"
proof -
  have tw: "takeWhile isdigit ds = ds"
    using assms(2) by (simp add: takeWhile_eq_all_conv)
  have dw: "dropWhile isspace ('' '' @ CHR ''-'' # ds) = CHR ''-'' # ds"
    by (simp add: isspace_def)
  have "- int (dec_value 0 ds) \<le> INT_MAX" by (simp add: INT_MAX_def)
  with assms(1,3) show ?thesis
    unfolding stoi_def dw Let_def by (simp add: tw)
qed

lemma stoi_to_string:
  assumes "INT_MIN \<le> i" "i \<le> INT_MAX"
  shows "stoi ('' '' @ to_string i) = Inr i"
proof (cases "i < 0")
  case True
  let ?n = "nat (- i)"
  have v: "- int (dec_value 0 (dec_digits ?n)) = i"
    using True by (simp add: dec_value_dec_digits)
  have d: "\<forall>c\<in>set (dec_digits ?n). isdigit c"
    by (simp add: dec_digits_isdigit)
  have "INT_MIN \<le> - int (dec_value 0 (dec_digits ?n))"
    unfolding v by (rule assms(1))
  from stoi_minus_digits [OF dec_digits_nonempty d this]
  have "stoi ('' '' @ CHR ''-'' # dec_digits ?n) = Inr (- int (dec_value 0 (dec_digits ?n)))" .
  with v True show ?thesis by (simp add: to_string_def)
next
  case False
  let ?n = "nat i"
  have v: "int (dec_value 0 (dec_digits ?n)) = i"
    using False by (simp add: dec_value_dec_digits)
  have d: "\<forall>c\<in>set (dec_digits ?n). isdigit c"
    by (simp add: dec_digits_isdigit)
  have "int (dec_value 0 (dec_digits ?n)) \<le> INT_MAX"
    unfolding v by (rule assms(2))
  from stoi_digits [OF dec_digits_nonempty d this]
  have "stoi ('' '' @ dec_digits ?n) = Inr (int (dec_value 0 (dec_digits ?n)))" .
  with v False show ?thesis by (simp add: to_string_def)
qed

text \<open>Searching in a string that is given as a concatenation.\<close>

lemma find_first_skip:
  assumes "needle \<noteq> []" "hd needle \<notin> set V"
  shows "find_first needle (V @ Y) = map_option (\<lambda>k. length V + k) (find_first needle Y)"
  using assms(2)
proof (induction V)
  case Nil
  show ?case by (simp add: option.map_ident)
next
  case (Cons a V)
  from Cons.prems assms(1) have "\<not> prefix needle (a # V @ Y)"
    by (cases needle) auto
  with Cons show ?case
    by (simp add: option.map_comp comp_def)
qed

lemma prefix_quoted:
  assumes \<open>CHR ''"'' \<notin> set V\<close> \<open>CHR ''"'' \<notin> set w\<close> "k \<noteq> c"
  shows \<open>\<not> prefix (w @ CHR ''"'' # k # ks) (V @ CHR ''"'' # c # X)\<close>
  using assms(1,2)
proof (induction w arbitrary: V)
  case Nil
  with assms(3) show ?case by (cases V) auto
next
  case (Cons a w)
  then show ?case by (cases V) auto
qed

lemma prefix_key_tails:
  assumes \<open>CHR ''"'' \<notin> set V\<close> "c \<noteq> CHR '':''"
  shows \<open>prefix ''status": "'' (V @ CHR ''"'' # c # X) = False\<close>
    and \<open>prefix ''createdAt": "'' (V @ CHR ''"'' # c # X) = False\<close>
    and \<open>prefix ''updatedAt": "'' (V @ CHR ''"'' # c # X) = False\<close>
    and \<open>prefix ''description": "'' (V @ CHR ''"'' # c # X) = False\<close>
    and \<open>prefix ''id":'' (V @ CHR ''"'' # c # X) = False\<close>
  using prefix_quoted [of V "''status''" "CHR '':''" c \<open>'' "''\<close> X]
    prefix_quoted [of V "''createdAt''" "CHR '':''" c \<open>'' "''\<close> X]
    prefix_quoted [of V "''updatedAt''" "CHR '':''" c \<open>'' "''\<close> X]
    prefix_quoted [of V "''description''" "CHR '':''" c \<open>'' "''\<close> X]
    prefix_quoted [of V "''id''" "CHR '':''" c \<open>[]\<close> X]
    assms
  by simp_all

lemma size_add_small: "a + b < 18446744073709551616 \<Longrightarrow> size_add a b = a + b"
  by (simp add: size_add_def)

lemma size_sub_add: "b < 18446744073709551616 \<Longrightarrow> size_sub (a + b) a = b"
proof -
  assume b: "b < 18446744073709551616"
  have "a + b + 18446744073709551616 - a = b + 18446744073709551616" by simp
  with b show ?thesis by (simp add: size_sub_def)
qed

lemma str_find_app:
  "str_find (X @ Y) K (length X) = (case find_first K Y of None \<Rightarrow> npos | Some k \<Rightarrow> length X + k)"
  by (simp add: str_find_def)

lemma substr_app: "substr (X @ Y) (length X) n = Inr (take n Y)"
  by (simp add: substr_def)

lemma string_field_ok:
  assumes c: \<open>content = X @ M @ K @ V @ CHR ''"'' # Z\<close>
    and f: \<open>find_first K (M @ K @ V @ CHR ''"'' # Z) = Some (length M)\<close>
    and v: \<open>CHR ''"'' \<notin> set V\<close>
    and off: "off = length K"
    and len: "length content < max_size"
  shows "string_field content K off (length X) = Inr (V, length (X @ M @ K @ V))"
proof -
  have 1: "str_find content K (length X) = length X + length M"
    unfolding c using f by (simp add: str_find_app)
  have 2: "size_add (length X + length M) off = length (X @ M @ K)"
    using len off c by (simp add: size_add_small max_size_def)
  have c': \<open>content = (X @ M @ K) @ V @ CHR ''"'' # Z\<close> using c by simp
  have \<open>find_first ''"'' (V @ CHR ''"'' # Z) = Some (length V)\<close>
    using v by (simp add: find_first_skip)
  then have 3: \<open>str_find content ''"'' (length (X @ M @ K)) = length (X @ M @ K) + length V\<close>
    by (subst c', subst str_find_app) simp
  have 4: "size_sub (length (X @ M @ K) + length V) (length (X @ M @ K)) = length V"
    using len c by (intro size_sub_add) (simp add: max_size_def)
  have 5: "substr content (length (X @ M @ K)) (length V) = Inr V"
    by (subst c', subst substr_app) simp
  show ?thesis
    unfolding string_field_def 1 2 Let_def 3 4 5 by simp
qed

lemma id_field_ok:
  assumes c: \<open>content = X @ ''"id": '' @ N @ CHR '','' # Z\<close>
    and n: "CHR '','' \<notin> set N"
    and len: "length content < max_size"
  shows "substr content (size_add (str_find content '':'' (length X)) 1)
           (size_sub (str_find content '','' (size_add (str_find content '':'' (length X)) 1))
              (size_add (str_find content '':'' (length X)) 1))
         = Inr ('' '' @ N)"
proof -
  have 1: "str_find content '':'' (length X) = length X + 4"
    unfolding c by (subst str_find_app) (simp add: find_first_step del: find_first.simps(2))
  have 2: \<open>size_add (length X + 4) 1 = length (X @ ''"id":'')\<close>
    using len c by (simp add: size_add_small max_size_def)
  have c': \<open>content = (X @ ''"id":'') @ '' '' @ N @ CHR '','' # Z\<close> using c by simp
  have \<open>find_first '','' ('' '' @ N @ CHR '','' # Z) = Some (length ('' '' @ N))\<close>
    using n by (simp add: find_first_step find_first_skip del: find_first.simps(2))
  then have 3: \<open>str_find content '','' (length (X @ ''"id":''))
      = length (X @ ''"id":'') + length ('' '' @ N)\<close>
    by (subst c', subst str_find_app) simp
  have 4: \<open>size_sub (length (X @ ''"id":'') + length ('' '' @ N)) (length (X @ ''"id":''))
      = length ('' '' @ N)\<close>
    using len c by (intro size_sub_add) (simp add: max_size_def)
  have 5: \<open>substr content (length (X @ ''"id":'')) (length ('' '' @ N)) = Inr ('' '' @ N)\<close>
    by (subst c', subst substr_app) simp
  show ?thesis
    unfolding 1 2 3 4 5 by simp
qed

text \<open>One iteration of the load loop on the text of one record.\<close>

lemma toJson_record_text:
  \<open>\<not> isDeleted t \<Longrightarrow> toJson t = record_text t @ ''"\<newline>  }''\<close>
  by (simp add: toJson_def record_text_def)

lemma TaskTracker5_fields:
  "\<not> isDeleted t \<Longrightarrow> TaskTracker5 (task_id t) (desc t) (status t) (createdAt t) (updatedAt t) = t"
  by (cases t) (simp add: TaskTracker5_def)

lemma to_string_plain:
  \<open>CHR ''"'' \<notin> set (to_string i)\<close> \<open>CHR '','' \<notin> set (to_string i)\<close>
  \<open>CHR ''['' \<notin> set (to_string i)\<close> \<open>CHR '']'' \<notin> set (to_string i)\<close>
  using to_string_chars [of \<open>CHR ''"''\<close> i] to_string_chars [of "CHR '',''" i]
    to_string_chars [of "CHR ''[''" i] to_string_chars [of "CHR '']''" i]
  by (auto simp: isdigit_def)

lemma loadTasks_loop_step:
  assumes c: \<open>content = P @ G @ record_text t @ CHR ''"'' # R\<close>
    and G: \<open>G = ''[\<newline>'' \<or> G = ''"\<newline>  },\<newline>''\<close>
    and st: "storable t" and live: "\<not> isDeleted t"
    and len: "length content < max_size"
  shows "loadTasks_loop content (length P) acc nid
       = loadTasks_loop content (length (P @ G @ record_text t)) (acc @ [t])
           (max nid (task_id t + 1))"
proof -
  let ?N = "to_string (task_id t)"
  define X where \<open>X = P @ G @ ''  {\<newline>    ''\<close>
  from st have q: \<open>CHR ''"'' \<notin> set (desc t)\<close> \<open>CHR ''"'' \<notin> set (status t)\<close>
    \<open>CHR ''"'' \<notin> set (createdAt t)\<close> \<open>CHR ''"'' \<notin> set (updatedAt t)\<close>
    and rng: "INT_MIN \<le> task_id t" "task_id t < INT_MAX"
    by (simp_all add: storable_def safe_text_def)
  note nq = to_string_plain(1) [of "task_id t"]
  have cP: \<open>content = P @ G @ ''  {\<newline>    "id": '' @ ?N @ '',\<newline>    "description": "'' @ desc t
     @ ''",\<newline>    "status": "'' @ status t @ ''",\<newline>    "createdAt": "'' @ createdAt t
     @ ''",\<newline>    "updatedAt": "'' @ updatedAt t @ CHR ''"'' # R\<close>
    using c by (simp add: record_text_def)
  have \<open>find_first ''"id":'' (G @ ''  {\<newline>    "id": '' @ ?N @ '',\<newline>    "description": "'' @ desc t
     @ ''",\<newline>    "status": "'' @ status t @ ''",\<newline>    "createdAt": "'' @ createdAt t
     @ ''",\<newline>    "updatedAt": "'' @ updatedAt t @ CHR ''"'' # R) = Some (length G + 8)\<close>
    using G by (auto simp: find_first_step simp del: find_first.simps(2))
  then have 1: \<open>str_find content ''"id":'' (length P) = length X\<close>
    by (subst cP, subst str_find_app) (simp add: X_def)
  have lenX: "length X \<noteq> npos"
    using len cP by (simp add: X_def npos_def max_size_def)
  have cX: \<open>content = X @ ''"id": '' @ ?N @ CHR '','' # (''\<newline>    "description": "'' @ desc t
     @ ''",\<newline>    "status": "'' @ status t @ ''",\<newline>    "createdAt": "'' @ createdAt t
     @ ''",\<newline>    "updatedAt": "'' @ updatedAt t @ CHR ''"'' # R)\<close>
    using cP by (simp add: X_def)
  note 2 = id_field_ok [OF cX to_string_plain(2) len]
  have 3: "stoi ('' '' @ ?N) = Inr (task_id t)"
    using rng by (intro stoi_to_string) simp_all
  have 4: \<open>string_field content ''"description": "'' 16 (length X)
      = Inr (desc t, length (X @ (''"id": '' @ ?N @ '',\<newline>    '') @ ''"description": "'' @ desc t))\<close>
    using q nq
    by (intro string_field_ok [where Z = \<open>'',\<newline>    "status": "'' @ status t @ ''",\<newline>    "createdAt": "'' @ createdAt t
        @ ''",\<newline>    "updatedAt": "'' @ updatedAt t @ CHR ''"'' # R\<close>] len)
      (simp_all add: cP X_def find_first_step find_first_skip prefix_key_tails
        del: find_first.simps(2))
  have 5: \<open>string_field content ''"status": "'' 11 (length X)
      = Inr (status t, length (X @ (''"id": '' @ ?N @ '',\<newline>    "description": "'' @ desc t
          @ ''",\<newline>    '') @ ''"status": "'' @ status t))\<close>
    using q nq
    by (intro string_field_ok [where Z = \<open>'',\<newline>    "createdAt": "'' @ createdAt t
        @ ''",\<newline>    "updatedAt": "'' @ updatedAt t @ CHR ''"'' # R\<close>] len)
      (simp_all add: cP X_def find_first_step find_first_skip prefix_key_tails
        del: find_first.simps(2))
  have 6: \<open>string_field content ''"createdAt": "'' 14 (length X)
      = Inr (createdAt t, length (X @ (''"id": '' @ ?N @ '',\<newline>    "description": "'' @ desc t
          @ ''",\<newline>    "status": "'' @ status t @ ''",\<newline>    '') @ ''"createdAt": "''
          @ createdAt t))\<close>
    using q nq
    by (intro string_field_ok [where Z = \<open>'',\<newline>    "updatedAt": "'' @ updatedAt t
        @ CHR ''"'' # R\<close>] len)
      (simp_all add: cP X_def find_first_step find_first_skip prefix_key_tails
        del: find_first.simps(2))
  have 7: \<open>string_field content ''"updatedAt": "'' 14 (length X)
      = Inr (updatedAt t, length (X @ (''"id": '' @ ?N @ '',\<newline>    "description": "'' @ desc t
          @ ''",\<newline>    "status": "'' @ status t @ ''",\<newline>    "createdAt": "'' @ createdAt t
          @ ''",\<newline>    '') @ ''"updatedAt": "'' @ updatedAt t))\<close>
    using q nq
    by (intro string_field_ok [where Z = R] len)
      (simp_all add: cP X_def find_first_step find_first_skip prefix_key_tails
        del: find_first.simps(2))
  have 8: \<open>length (X @ (''"id": '' @ ?N @ '',\<newline>    "description": "'' @ desc t
          @ ''",\<newline>    "status": "'' @ status t @ ''",\<newline>    "createdAt": "'' @ createdAt t
          @ ''",\<newline>    '') @ ''"updatedAt": "'' @ updatedAt t)
      = length (P @ G @ record_text t)\<close>
    by (simp add: X_def record_text_def)
  have 9: "task_id t \<noteq> INT_MAX" using rng(2) by simp
  have "loadTasks_loop content (length P) acc nid
      = loadTasks_loop content (length (P @ G @ record_text t))
          (acc @ [TaskTracker5 (task_id t) (desc t) (status t) (createdAt t) (updatedAt t)])
          (max nid (task_id t + 1))"
    by (subst loadTasks_loop.simps) (simp only: 1 Let_def lenX 2 3 4 5 6 7 8 9 if_False
        sum.case prod.case)
  then show ?thesis by (simp only: TaskTracker5_fields [OF live])
qed

text \<open>The guard of loadTasks and the whole loop on a saved file.\<close>

lemma find_first_absent:
  assumes "needle \<noteq> []" "hd needle \<notin> set V"
  shows "find_first needle V = None"
  using find_first_skip [OF assms, of "[]"] assms(1) by simp

lemma brackets_Cons:
  "c \<noteq> CHR ''['' \<Longrightarrow> (find_first ''[]'' (c # Y) = None) = (find_first ''[]'' Y = None)"
  by simp

lemma brackets_open:
  "c \<noteq> CHR '']'' \<Longrightarrow>
   (find_first ''[]'' (CHR ''['' # c # Y) = None) = (find_first ''[]'' (c # Y) = None)"
  by simp

lemma brackets_skip:
  assumes "find_first ''[]'' V = None" "c \<noteq> CHR '']''"
  shows "(find_first ''[]'' (V @ c # X) = None) = (find_first ''[]'' (c # X) = None)"
  using assms(1)
proof (induction V)
  case Nil
  show ?case by simp
next
  case (Cons a V)
  from Cons.prems have p: "\<not> prefix ''[]'' (a # V)" and r: "find_first ''[]'' V = None"
    by (simp_all split: if_splits)
  from p assms(2) have np: "\<not> prefix ''[]'' (a # V @ c # X)"
    by (cases V) auto
  have e: "find_first ''[]'' (a # V @ c # X) = map_option Suc (find_first ''[]'' (V @ c # X))"
    by (simp only: find_first.simps(2) np if_False)
  have "(find_first ''[]'' ((a # V) @ c # X) = None) = (find_first ''[]'' (V @ c # X) = None)"
    unfolding append_Cons e by (simp only: option.map_disc_iff)
  also have "\<dots> = (find_first ''[]'' (c # X) = None)"
    by (rule Cons.IH [OF r])
  finally show ?case .
qed

lemma brackets_record:
  assumes "storable t"
  shows \<open>(find_first ''[]'' (record_text t @ CHR ''"'' # Y) = None) = (find_first ''[]'' Y = None)\<close>
proof -
  from assms have b: "find_first ''[]'' (desc t) = None" "find_first ''[]'' (status t) = None"
    "find_first ''[]'' (createdAt t) = None" "find_first ''[]'' (updatedAt t) = None"
    by (simp_all add: storable_def safe_text_def)
  have n: "find_first ''[]'' (to_string (task_id t)) = None"
    using to_string_plain(3) by (intro find_first_absent) simp_all
  show ?thesis
    unfolding record_text_def
    by (simp add: brackets_skip brackets_Cons b n del: find_first.simps)
qed

lemma saveTasks_loop_False:
  "\<not> isDeleted t \<Longrightarrow> saveTasks_loop False (t # ts)
     = '',\<newline>'' @ record_text t @ CHR 0x22 # ''\<newline>  }'' @ saveTasks_loop False ts"
  by (simp add: isTaskDeleted_def toJson_record_text)

lemma saveTasks_loop_True:
  "\<not> isDeleted t \<Longrightarrow> saveTasks_loop True (t # ts)
     = record_text t @ CHR 0x22 # ''\<newline>  }'' @ saveTasks_loop False ts"
  by (simp add: isTaskDeleted_def toJson_record_text)

lemma brackets_records:
  assumes "\<forall>t\<in>set ts. storable t \<and> \<not> isDeleted t"
  shows "find_first ''[]'' (saveTasks_loop False ts @ ''\<newline>]\<newline>'') = None"
  using assms
proof (induction ts)
  case Nil
  show ?case by simp
next
  case (Cons t ts)
  then have t: "storable t" "\<not> isDeleted t"
    and r: "find_first ''[]'' (saveTasks_loop False ts @ ''\<newline>]\<newline>'') = None"
    by simp_all
  show ?case
    unfolding saveTasks_loop_False [OF t(2)]
    using r by (simp add: brackets_record [OF t(1)] brackets_Cons
        del: find_first.simps saveTasks_loop.simps)
qed

lemma loadTasks_loop_records:
  assumes "\<forall>t\<in>set ts. storable t \<and> \<not> isDeleted t"
    and "content = P @ CHR 0x22 # ''\<newline>  }'' @ saveTasks_loop False ts @ ''\<newline>]\<newline>''"
    and "length content < max_size"
  shows "loadTasks_loop content (length P) acc nid = Some (Inr (acc @ ts, next_after nid ts))"
  using assms
proof (induction ts arbitrary: P acc nid)
  case Nil
  then have c: "content = P @ CHR 0x22 # ''\<newline>  }\<newline>]\<newline>''" by simp
  have "str_find content ''\"id\":'' (length P) = npos"
    unfolding c by (subst str_find_app) (simp add: find_first_step del: find_first.simps(2))
  then show ?case
    by (subst loadTasks_loop.simps) (simp add: next_after_def)
next
  case (Cons t ts)
  then have t: "storable t" "\<not> isDeleted t" and ts: "\<forall>t\<in>set ts. storable t \<and> \<not> isDeleted t"
    by simp_all
  let ?G = "CHR 0x22 # ''\<newline>  },\<newline>''"
  let ?R = "''\<newline>  }'' @ saveTasks_loop False ts @ ''\<newline>]\<newline>''"
  have c: "content = P @ ?G @ record_text t @ CHR 0x22 # ?R"
    using Cons.prems(2) by (simp add: saveTasks_loop_False [OF t(2)] del: saveTasks_loop.simps)
  have c': "content = (P @ ?G @ record_text t) @ CHR 0x22 # ''\<newline>  }'' @ saveTasks_loop False ts
      @ ''\<newline>]\<newline>''"
    using c by simp
  have "loadTasks_loop content (length P) acc nid
      = loadTasks_loop content (length (P @ ?G @ record_text t)) (acc @ [t])
          (max nid (task_id t + 1))"
    by (rule loadTasks_loop_step [OF c _ t Cons.prems(3)]) simp
  also have "\<dots> = Some (Inr ((acc @ [t]) @ ts, next_after (max nid (task_id t + 1)) ts))"
    by (rule Cons.IH [OF ts c' Cons.prems(3)])
  finally show ?case by (simp add: next_after_def getId_def)
qed

lemma listed_live: "\<forall>t\<in>set (listed m). \<not> isDeleted t"
  by (simp add: listed_def isTaskDeleted_def)

lemma saved_file:
  "disk (saveTasks m) = Some (''[\<newline>'' @ saveTasks_loop True (listed m) @ ''\<newline>]'')"
  using saveTasks_loop_live [of True "tasks m"] by (simp add: saveTasks_def listed_def)

lemma read_saved_file:
  "read_lines (''[\<newline>'' @ body @ ''\<newline>]'') [] = ''[\<newline>'' @ body @ ''\<newline>]\<newline>''"
  by (simp add: read_lines_eq ends_line_def)

lemma loadTasks_loop_saved:
  assumes st: "\<forall>t\<in>set ts. storable t \<and> \<not> isDeleted t"
    and c: "content = ''[\<newline>'' @ saveTasks_loop True ts @ ''\<newline>]\<newline>''"
    and len: "length content < max_size"
  shows "str_find content ''[]'' 0 = npos"
    and "loadTasks_loop content 0 [] n = Some (Inr (ts, next_after n ts))"
proof -
  show "str_find content ''[]'' 0 = npos"
  proof (cases ts)
    case Nil
    with c show ?thesis by (simp add: str_find_def)
  next
    case (Cons t ts')
    with st have t: "storable t" "\<not> isDeleted t"
      and ts': "\<forall>t\<in>set ts'. storable t \<and> \<not> isDeleted t"
      by simp_all
    have "find_first ''[]'' content = None"
      unfolding c Cons saveTasks_loop_True [OF t(2)]
      using brackets_records [OF ts']
      by (simp add: brackets_open brackets_Cons brackets_record [OF t(1)]
          del: find_first.simps saveTasks_loop.simps)
    then show ?thesis by (simp add: str_find_def)
  qed
  show "loadTasks_loop content 0 [] n = Some (Inr (ts, next_after n ts))"
  proof (cases ts)
    case Nil
    with c have c0: "content = [] @ ''[\<newline>\<newline>]\<newline>''" by simp
    have "str_find content ''\"id\":'' (length ([] :: string)) = npos"
      by (subst c0, subst str_find_app) (simp add: find_first_step del: find_first.simps(2))
    then show ?thesis
      using Nil by (subst loadTasks_loop.simps) (simp add: next_after_def)
  next
    case (Cons t ts')
    with st have t: "storable t" "\<not> isDeleted t"
      and ts': "\<forall>t\<in>set ts'. storable t \<and> \<not> isDeleted t"
      by simp_all
    let ?R = "''\<newline>  }'' @ saveTasks_loop False ts' @ ''\<newline>]\<newline>''"
    have c1: "content = [] @ ''[\<newline>'' @ record_text t @ CHR 0x22 # ?R"
      using c Cons by (simp add: saveTasks_loop_True [OF t(2)] del: saveTasks_loop.simps)
    have c2: "content = (''[\<newline>'' @ record_text t) @ CHR 0x22 # ''\<newline>  }''
        @ saveTasks_loop False ts' @ ''\<newline>]\<newline>''"
      using c1 by simp
    have "loadTasks_loop content (length ([] :: string)) [] n
        = loadTasks_loop content (length ([] @ ''[\<newline>'' @ record_text t)) ([] @ [t])
            (max n (task_id t + 1))"
      by (rule loadTasks_loop_step [OF c1 _ t len]) simp
    also have "\<dots> = loadTasks_loop content (length (''[\<newline>'' @ record_text t)) [t]
            (max n (task_id t + 1))"
      by simp
    also have "\<dots> = Some (Inr ([t] @ ts', next_after (max n (task_id t + 1)) ts'))"
      by (rule loadTasks_loop_records [OF ts' c2 len])
    finally show ?thesis using Cons by (simp add: next_after_def getId_def)
  qed
qed

text \<open>
  Saving and reloading, for storable tasks: when every live task is storable and the
  file is shorter than \<open>max_size\<close>, a new manager reading the saved file holds
  exactly the live tasks, in order, with the counter one above the largest id.
\<close>

lemma reload_saved:
  assumes st: "\<forall>t\<in>set (listed m). storable t"
    and len: "Suc (length (the (disk (saveTasks m)))) < max_size"
  shows "TaskManager_new (disk (saveTasks m))
       = Some (Inr \<lparr>tasks = listed m, nextId = next_after 1 (listed m),
            disk = disk (saveTasks m)\<rparr>)"
proof -
  let ?body = "saveTasks_loop True (listed m)"
  let ?content = "''[\<newline>'' @ ?body @ ''\<newline>]\<newline>''"
  from st listed_live have st': "\<forall>t\<in>set (listed m). storable t \<and> \<not> isDeleted t"
    by blast
  from len have len': "length ?content < max_size"
    by (simp add: saved_file)
  define f where "f = ''[\<newline>'' @ ?body @ ''\<newline>]''"
  define content where "content = ?content"
  have rf: "read_lines f [] = content"
    by (simp add: f_def content_def read_lines_eq ends_line_def)
  have ne: "content \<noteq> []" by (simp add: content_def)
  have g: "str_find content ''[]'' 0 = npos"
    and l: "loadTasks_loop content 0 [] 1 = Some (Inr (listed m, next_after 1 (listed m)))"
    using loadTasks_loop_saved [OF st' content_def] len' by (simp_all add: content_def)
  have "TaskManager_new (Some f)
      = Some (Inr \<lparr>tasks = listed m, nextId = next_after 1 (listed m), disk = Some f\<rparr>)"
    by (simp add: TaskManager_new_def loadTasks_def rf ne g l)
  then show ?thesis
    by (simp only: saved_file f_def)
qed

lemma next_after_mono: "n \<le> next_after n ts"
  unfolding next_after_def
proof (induction ts arbitrary: n)
  case Nil
  show ?case by simp
next
  case (Cons t ts)
  have "n \<le> max n (getId t + 1)" by simp
  also have "\<dots> \<le> foldl (\<lambda>k t. max k (getId t + 1)) (max n (getId t + 1)) ts"
    by (rule Cons.IH)
  finally show ?case by simp
qed

lemma next_after_above: "t \<in> set ts \<Longrightarrow> getId t < next_after n ts"
proof (induction ts arbitrary: n)
  case Nil
  then show ?case by simp
next
  case (Cons a ts)
  show ?case
  proof (cases "t = a")
    case True
    have "getId t < max n (getId t + 1)" by simp
    also have "\<dots> \<le> next_after (max n (getId t + 1)) ts" by (rule next_after_mono)
    finally show ?thesis using True by (simp add: next_after_def)
  next
    case False
    with Cons.prems have "t \<in> set ts" by simp
    from Cons.IH [OF this, of "max n (getId a + 1)"] show ?thesis
      by (simp add: next_after_def)
  qed
qed

section \<open>Ids in one run and across restarts\<close>

lemma changed_ids: "map getId (changed f i ts) = map getId ts"
  if "\<And>t. getId (f t) = getId t"
  using change_first_map [of getId f i ts, OF that]
  by (auto simp: changed_def split: option.splits)

lemma op_ids:
  "map getId (tasks (snd (updateTask i d now m))) = map getId (tasks m)"
  "map getId (tasks (snd (deleteTask i m))) = map getId (tasks m)"
  "map getId (tasks (snd (markInProgress i now m))) = map getId (tasks m)"
  "map getId (tasks (snd (markDone i now m))) = map getId (tasks m)"
  by (simp_all add: op_tasks changed_ids updateDescription_def updateStatus_def
      TaskTracker_deleteTask_def getId_def)

lemma op_nextId:
  "nextId (snd (updateTask i d now m)) = nextId m"
  "nextId (snd (deleteTask i m)) = nextId m"
  "nextId (snd (markInProgress i now m)) = nextId m"
  "nextId (snd (markDone i now m)) = nextId m"
  by (simp_all add: updateTask_def deleteTask_def markInProgress_def markDone_def
      split: option.splits)

lemma ids_in_order_same:
  assumes "ids_in_order m" "map getId (tasks m') = map getId (tasks m)" "nextId m' = nextId m"
  shows "ids_in_order m'"
proof -
  have "getId x < nextId m'" if "x \<in> set (tasks m')" for x
  proof -
    from that have "getId x \<in> set (map getId (tasks m'))" by simp
    with assms(2) have "getId x \<in> set (map getId (tasks m))" by simp
    with assms(1,3) show ?thesis by (auto simp: ids_in_order_def)
  qed
  with assms show ?thesis by (simp add: ids_in_order_def)
qed

lemma ids_in_order_step:
  assumes "ids_in_order m" "apply_operation operation m = Inr m'"
  shows "ids_in_order m'"
proof (cases operation)
  case (Add d now)
  with assms(2) have t: "map getId (tasks m') = map getId (tasks m) @ [nextId m]"
    and n: "nextId m' = nextId m + 1"
    by (auto simp: addTask_def Let_def TaskTracker_addTask_def TaskTracker1_def getId_def
        split: if_splits)
  from assms(1) have "nextId m \<notin> set (map getId (tasks m))"
    by (auto simp: ids_in_order_def)
  with assms(1) t have "distinct (map getId (tasks m'))"
    by (simp add: ids_in_order_def)
  moreover have "getId x < nextId m'" if "x \<in> set (tasks m')" for x
  proof -
    from that have "getId x \<in> set (map getId (tasks m'))" by simp
    with t have "getId x \<in> set (map getId (tasks m)) \<or> getId x = nextId m" by auto
    with assms(1) n show ?thesis by (auto simp: ids_in_order_def)
  qed
  ultimately show ?thesis by (simp add: ids_in_order_def)
next
  case (Update i d now)
  with assms(2) have "m' = snd (updateTask i d now m)" by simp
  with assms(1) show ?thesis by (simp add: ids_in_order_same op_ids op_nextId)
next
  case (Delete i)
  with assms(2) have "m' = snd (deleteTask i m)" by simp
  with assms(1) show ?thesis by (simp add: ids_in_order_same op_ids op_nextId)
next
  case (MarkInProgress i now)
  with assms(2) have "m' = snd (markInProgress i now m)" by simp
  with assms(1) show ?thesis by (simp add: ids_in_order_same op_ids op_nextId)
next
  case (MarkDone i now)
  with assms(2) have "m' = snd (markDone i now m)" by simp
  with assms(1) show ?thesis by (simp add: ids_in_order_same op_ids op_nextId)
qed

lemma ids_in_order_run: "ids_in_order m \<Longrightarrow> run ops m = Inr m' \<Longrightarrow> ids_in_order m'"
proof (induction ops arbitrary: m)
  case Nil
  then show ?case by simp
next
  case (Cons a ops)
  from Cons.prems(2) obtain m1 where a: "apply_operation a m = Inr m1" and r: "run ops m1 = Inr m'"
    by (auto split: sum.splits)
  from Cons.IH [OF ids_in_order_step [OF Cons.prems(1) a] r] show ?case .
qed

lemma ids_in_order_fresh: "ids_in_order \<lparr>tasks = [], nextId = 1, disk = f\<rparr>"
  by (simp add: ids_in_order_def)

lemma ids_in_order_listed:
  assumes "ids_in_order m"
  shows "distinct (map getId (listed m))"
  using assms by (simp add: ids_in_order_def listed_def distinct_map_filter)

lemma ids_in_order_reload:
  assumes "ids_in_order m"
  shows "ids_in_order \<lparr>tasks = listed m, nextId = next_after 1 (listed m), disk = f\<rparr>"
  using ids_in_order_listed [OF assms] by (simp add: ids_in_order_def next_after_above)

lemma next_after_snoc: "next_after n (ts @ [t]) = max (next_after n ts) (getId t + 1)"
  by (simp add: next_after_def)

lemma listed_all_live: "\<forall>t\<in>set (tasks m). \<not> isDeleted t \<Longrightarrow> listed m = tasks m"
  by (simp add: listed_def isTaskDeleted_def)

lemma reload_fixed:
  assumes r: "reloads_to_itself m"
    and len: "\<forall>f. disk m = Some f \<longrightarrow> Suc (length f) < max_size"
  shows "TaskManager_new (disk m) = Some (Inr m)"
proof -
  from r have live: "\<forall>t\<in>set (tasks m). \<not> isDeleted t" and st: "\<forall>t\<in>set (tasks m). storable t"
    and n: "nextId m = next_after 1 (tasks m)"
    and d: "disk m = None \<and> tasks m = [] \<or> saved m"
    by (auto simp: reloads_to_itself_def)
  from d show ?thesis
  proof
    assume e: "disk m = None \<and> tasks m = []"
    with n have "m = \<lparr>tasks = [], nextId = 1, disk = None\<rparr>"
      by (cases m) (simp add: next_after_def)
    with e show ?thesis by (simp add: TaskManager_new_def loadTasks_def)
  next
    assume s: "saved m"
    then have dm: "disk m = disk (saveTasks m)" by (simp add: saved_def)
    have l: "listed m = tasks m" using live by (rule listed_all_live)
    from st l have st': "\<forall>t\<in>set (listed m). storable t" by simp
    from len dm have len': "Suc (length (the (disk (saveTasks m)))) < max_size"
      by (simp add: saveTasks_def)
    from reload_saved [OF st' len'] l n dm show ?thesis by (cases m) simp
  qed
qed

lemma safe_todo: "safe_text ''todo''"
  by (simp add: safe_text_def)

lemma addTask_keeps_reloading:
  assumes r: "reloads_to_itself m" and s: "safe_text d" "safe_text now"
    and a: "addTask d now m = Inr (out, m')"
  shows "reloads_to_itself m'" and "out = added_line (nextId m)" and "nextId m' = nextId m + 1"
proof -
  let ?t = "\<lparr>task_id = nextId m, isDeleted = False, desc = d, status = ''todo'',
      createdAt = now, updatedAt = now\<rparr>"
  from a have lt: "nextId m < INT_MAX"
    and m': "m' = saveTasks (m\<lparr>nextId := nextId m + 1, tasks := tasks m @ [?t]\<rparr>)"
    and out: "out = [''Task added successfully (ID: '' @ to_string (nextId m) @ '')'']"
    by (auto simp: addTask_def Let_def TaskTracker_addTask_def TaskTracker1_def getId_def
        split: if_splits)
  from r have n: "nextId m = next_after 1 (tasks m)"
    and old: "\<forall>t\<in>set (tasks m). \<not> isDeleted t \<and> storable t"
    by (auto simp: reloads_to_itself_def)
  have "1 \<le> nextId m" unfolding n by (rule next_after_mono)
  with lt s safe_todo have "storable ?t"
    by (simp add: storable_def INT_MIN_def)
  with old have all: "\<forall>t\<in>set (tasks m'). \<not> isDeleted t \<and> storable t"
    unfolding m' by auto
  have "next_after 1 (tasks m') = nextId m'"
    unfolding m' using n by (simp add: next_after_snoc getId_def)
  with all show "reloads_to_itself m'"
    unfolding reloads_to_itself_def using m' by simp
  show "out = added_line (nextId m)" using out by (simp add: added_line_def)
  show "nextId m' = nextId m + 1" using m' by simp
qed

lemma saveTasks_loop_grows:
  "length (saveTasks_loop first ts) \<le> length (saveTasks_loop first (ts @ us))"
  by (induction ts arbitrary: first) auto

lemma addTask_file_grows:
  assumes "addTask d now m = Inr (out, m')" "saved m" "disk m = Some f"
  shows "\<exists>f'. disk m' = Some f' \<and> length f \<le> length f'"
proof -
  from assms(1) obtain t where "m' = saveTasks (m\<lparr>nextId := nextId m + 1, tasks := tasks m @ [t]\<rparr>)"
    by (auto simp: addTask_def Let_def split: if_splits)
  then have "disk m' = Some (''[\<newline>'' @ saveTasks_loop True (tasks m @ [t]) @ ''\<newline>]'')"
    by (simp add: saveTasks_def)
  moreover from assms(2,3) have "f = ''[\<newline>'' @ saveTasks_loop True (tasks m) @ ''\<newline>]''"
    by (simp add: saved_def saveTasks_def)
  ultimately show ?thesis
    using saveTasks_loop_grows [of True "tasks m" "[t]"] by simp
qed

lemma main_add:
  "TaskManager_new f = Some (Inr m) \<Longrightarrow> addTask d now m = Inr (out, m') \<Longrightarrow>
   main [''task-cli'', ''add'', d] now f = Some (Inr (0, out, m'))"
  by (simp add: main_def main_body_def)

lemma run_adds_grow:
  assumes "run (map (\<lambda>(d, now). Add d now) ds) m = Inr final" "saved m" "disk m = Some f"
  shows "\<exists>f'. disk final = Some f' \<and> length f \<le> length f'"
  using assms
proof (induction ds arbitrary: m f)
  case Nil
  then show ?case by simp
next
  case (Cons a ds)
  obtain d now where a: "a = (d, now)" by (cases a)
  with Cons.prems(1) obtain out m1 where
    add: "addTask d now m = Inr (out, m1)"
    and r: "run (map (\<lambda>(d, now). Add d now) ds) m1 = Inr final"
    by (auto split: sum.splits)
  from addTask_file_grows [OF add Cons.prems(2,3)] obtain f1 where
    f1: "disk m1 = Some f1" "length f \<le> length f1"
    by blast
  from add have "saved m1" by (auto simp: addTask_def Let_def split: if_splits)
  from Cons.IH [OF r this f1(1)] f1(2) show ?case by auto
qed

lemma add_session_run:
  assumes "reloads_to_itself m"
    and "\<forall>(d, now)\<in>set ds. safe_text d \<and> safe_text now"
    and "run (map (\<lambda>(d, now). Add d now) ds) m = Inr final"
    and "\<forall>f. disk final = Some f \<longrightarrow> Suc (length f) < max_size"
  shows "add_session ds (disk m)
       = Some (map (\<lambda>k. added_line (nextId m + int k)) [0..<length ds], disk final)"
  using assms
proof (induction ds arbitrary: m)
  case Nil
  then show ?case by simp
next
  case (Cons a ds)
  obtain d now where a: "a = (d, now)" by (cases a)
  with Cons.prems(2) have s: "safe_text d" "safe_text now"
    and rest: "\<forall>(d, now)\<in>set ds. safe_text d \<and> safe_text now"
    by simp_all
  from a Cons.prems(3) obtain out m1 where
    add: "addTask d now m = Inr (out, m1)"
    and r: "run (map (\<lambda>(d, now). Add d now) ds) m1 = Inr final"
    by (auto split: sum.splits)
  have len: "\<forall>f. disk m = Some f \<longrightarrow> Suc (length f) < max_size"
  proof (intro allI impI)
    fix f assume f: "disk m = Some f"
    with Cons.prems(1) have "saved m" by (auto simp: reloads_to_itself_def)
    from run_adds_grow [OF Cons.prems(3) this f] Cons.prems(4)
    show "Suc (length f) < max_size" by auto
  qed
  from reload_fixed [OF Cons.prems(1) len] have new: "TaskManager_new (disk m) = Some (Inr m)" .
  note k = addTask_keeps_reloading [OF Cons.prems(1) s add]
  from Cons.IH [OF k(1) rest r Cons.prems(4)]
  have ih: "add_session ds (disk m1)
      = Some (map (\<lambda>k. added_line (nextId m1 + int k)) [0..<length ds], disk final)" .
  have "map (\<lambda>k. added_line (nextId m + int k)) [0..<length (a # ds)]
      = added_line (nextId m) # map (\<lambda>k. added_line (nextId m1 + int k)) [0..<length ds]"
    using k(3) by (simp add: upt_rec [of 0] map_Suc_upt [symmetric] add.assoc del: upt_Suc)
  with main_add [OF new add] ih k(2) a show ?case by simp
qed

lemma reloads_fresh: "reloads_to_itself fresh"
  by (simp add: reloads_to_itself_def fresh_def next_after_def)

text \<open>
  Adds across restarts, for text that the format can carry. Every description and
  clock reading is free of double quotes and of \<open>[]\<close>, the same adds succeed in one
  process (no overflow of the counter), and the last file is shorter than \<open>max_size\<close>.
  Then the session of one process per add prints the ids 1, 2, 3, ... in this order
  and leaves the file that the single process leaves.
\<close>

theorem add_session_ids:
  assumes "\<forall>(d, now)\<in>set ds. safe_text d \<and> safe_text now"
    and "run (map (\<lambda>(d, now). Add d now) ds) fresh = Inr final"
    and "\<forall>f. disk final = Some f \<longrightarrow> Suc (length f) < max_size"
  shows "add_session ds None
       = Some (map (\<lambda>k. added_line (int k)) [1..<Suc (length ds)], disk final)"
proof -
  have "map (\<lambda>k. added_line (nextId fresh + int k)) [0..<length ds]
      = map (\<lambda>k. added_line (int k)) [1..<Suc (length ds)]"
    by (simp add: fresh_def map_Suc_upt [symmetric] add.commute del: upt_Suc)
  with add_session_run [OF reloads_fresh assms] show ?thesis
    by (simp add: fresh_def)
qed

theorem add_session_ids_witness:
  "map_option fst (add_session [(''Buy milk'', ''Mon''), (''call Bob [urgent]'', ''Tue'')] None)
     = Some [[''Task added successfully (ID: 1)''], [''Task added successfully (ID: 2)'']]"
proof -
  let ?ds = "[(''Buy milk'', ''Mon''), (''call Bob [urgent]'', ''Tue'')]"
  let ?final = "projr (run (map (\<lambda>(d, now). Add d now) ?ds) fresh)"
  note ev = fresh_def addTask_def INT_MAX_def TaskTracker_addTask_def TaskTracker1_def getId_def
    saveTasks_def isTaskDeleted_def toJson_def to_string_def dec_digits.simps digit_char_def
  have s: "\<forall>(d, now)\<in>set ?ds. safe_text d \<and> safe_text now"
    by (simp add: safe_text_def)
  have r: "run (map (\<lambda>(d, now). Add d now) ?ds) fresh = Inr ?final"
    by (simp add: ev)
  have len: "\<forall>f. disk ?final = Some f \<longrightarrow> Suc (length f) < max_size"
    by (simp add: ev max_size_def)
  from add_session_ids [OF s r len] show ?thesis
    by (simp add: added_line_def to_string_def dec_digits.simps digit_char_def)
qed

section \<open>An id that comes back after a restart\<close>

lemma reload_small:
  assumes "\<forall>t\<in>set ts. storable t \<or> isDeleted t"
    and "Suc (length (the (disk (saveTasks \<lparr>tasks = ts, nextId = n, disk = f\<rparr>)))) < max_size"
  shows "TaskManager_new (disk (saveTasks \<lparr>tasks = ts, nextId = n, disk = f\<rparr>))
       = Some (Inr \<lparr>tasks = filter (\<lambda>t. \<not> isDeleted t) ts,
            nextId = next_after 1 (filter (\<lambda>t. \<not> isDeleted t) ts),
            disk = disk (saveTasks \<lparr>tasks = ts, nextId = n, disk = f\<rparr>)\<rparr>)"
  using reload_saved [of "\<lparr>tasks = ts, nextId = n, disk = f\<rparr>"] assms
  by (auto simp: listed_def isTaskDeleted_def)

lemma storable_ab: "storable task_a" "storable task_b"
  by (simp_all add: storable_def safe_text_def task_a_def task_b_def INT_MIN_def INT_MAX_def)

text \<open>
  The counter is not saved, and neither are tombstones: a new process computes
  \<open>nextId\<close> from the ids it finds in the file. Four invocations, starting without a
  file: add a (id 1), add b (id 2), delete 2, add c. The last one prints id 2 again.
\<close>

theorem deleted_id_assigned_again:
  "printed (main [''task-cli'', ''add'', ''b''] ''Tue''
      (file_after (main [''task-cli'', ''add'', ''a''] ''Mon'' None)))
     = [''Task added successfully (ID: 2)'']
   \<and> printed (main [''task-cli'', ''add'', ''c''] ''Thu''
      (file_after (main [''task-cli'', ''delete'', ''2''] ''Wed''
        (file_after (main [''task-cli'', ''add'', ''b''] ''Tue''
          (file_after (main [''task-cli'', ''add'', ''a''] ''Mon'' None)))))))
     = [''Task added successfully (ID: 2)'']"
proof -
  note ev = main_def main_body_def addTask_def INT_MAX_def TaskTracker_addTask_def
    TaskTracker1_def getId_def to_string_def dec_digits.simps digit_char_def
  note sz = saveTasks_def isTaskDeleted_def toJson_def to_string_def dec_digits.simps
    digit_char_def max_size_def task_a_def task_b_def
  define m1 where "m1 = \<lparr>tasks = [task_a], nextId = 2, disk = None\<rparr>"
  define m2 where "m2 = \<lparr>tasks = [task_a, task_b], nextId = 3, disk = disk (saveTasks m1)\<rparr>"
  define m3 where "m3 = \<lparr>tasks = [task_a, task_b\<lparr>isDeleted := True\<rparr>], nextId = 3,
      disk = disk (saveTasks m2)\<rparr>"
  have 1: "main [''task-cli'', ''add'', ''a''] ''Mon'' None
      = Some (Inr (0, [''Task added successfully (ID: 1)''], saveTasks m1))"
    by (simp add: ev TaskManager_new_def loadTasks_def m1_def task_a_def)
  have r1: "TaskManager_new (disk (saveTasks m1))
      = Some (Inr \<lparr>tasks = [task_a], nextId = 2, disk = disk (saveTasks m1)\<rparr>)"
    unfolding m1_def
    by (subst reload_small) (simp_all add: storable_ab next_after_def getId_def, simp_all add: sz)
  have 2: "main [''task-cli'', ''add'', ''b''] ''Tue'' (disk (saveTasks m1))
      = Some (Inr (0, [''Task added successfully (ID: 2)''], saveTasks m2))"
    by (simp add: ev r1 m2_def task_b_def)
  have r2: "TaskManager_new (disk (saveTasks m2))
      = Some (Inr \<lparr>tasks = [task_a, task_b], nextId = 3, disk = disk (saveTasks m2)\<rparr>)"
    unfolding m2_def
    by (subst reload_small) (simp_all add: storable_ab next_after_def getId_def, simp_all add: sz)
  have s2: "stoi ''2'' = Inr 2"
    by (simp add: stoi_def isspace_def isdigit_def digit_val_def INT_MAX_def INT_MIN_def)
  have 3: "main [''task-cli'', ''delete'', ''2''] ''Wed'' (disk (saveTasks m2))
      = Some (Inr (0, [''Task deleted successfully''], saveTasks m3))"
    by (simp add: main_def main_body_def r2 s2 deleteTask_def getId_def isTaskDeleted_def
        TaskTracker_deleteTask_def m3_def task_a_def task_b_def)
  have r3: "TaskManager_new (disk (saveTasks m3))
      = Some (Inr \<lparr>tasks = [task_a], nextId = 2, disk = disk (saveTasks m3)\<rparr>)"
    unfolding m3_def
    by (subst reload_small) (simp_all add: storable_ab next_after_def getId_def, simp_all add: sz)
  obtain m4 where 4: "main [''task-cli'', ''add'', ''c''] ''Thu'' (disk (saveTasks m3))
      = Some (Inr (0, [''Task added successfully (ID: 2)''], m4))"
    by (simp add: ev r3)
  show ?thesis
    by (simp add: 1 2 3 4 printed_def file_after_def)
qed

section \<open>A second record with the same id, read from one description\<close>

lemma forged_saved:
  "disk (saveTasks \<lparr>tasks = [\<lparr>task_id = 1, isDeleted = False, desc = forged, status = ''todo'',
      createdAt = ''Mon'', updatedAt = ''Mon''\<rparr>], nextId = 2, disk = None\<rparr>) = Some forged_file"
  by (simp add: saveTasks_def forged_def forged_file_def isTaskDeleted_def toJson_def
      to_string_def dec_digits.simps digit_char_def)

lemma forged_loop:
  "loadTasks_loop (forged_file @ ''\<newline>'') 0 [] 1 = Some (Inr ([first_read, second_read], 2))"
  unfolding forged_file_def first_read_def second_read_def
  apply (subst loadTasks_loop.simps)
  apply (simp add: eval_defs del: find_first.simps(2))
  apply (subst loadTasks_loop.simps)
  apply (simp add: eval_defs del: find_first.simps(2))
  apply (subst loadTasks_loop.simps)
  apply (simp add: eval_defs del: find_first.simps(2))
  done

lemma forged_new:
  "TaskManager_new (Some forged_file)
     = Some (Inr \<lparr>tasks = [first_read, second_read], nextId = 2, disk = Some forged_file\<rparr>)"
proof -
  have r: "read_lines forged_file [] = forged_file @ ''\<newline>''"
    by (simp add: read_lines_eq ends_line_def forged_file_def)
  have g: "str_find (forged_file @ ''\<newline>'') ''[]'' 0 = npos"
    by (simp add: forged_file_def str_find_def find_first_step del: find_first.simps(2))
  have ne: "forged_file @ ''\<newline>'' \<noteq> []" by simp
  show ?thesis
    by (simp add: TaskManager_new_def loadTasks_def r g forged_loop del: append_is_Nil_conv)
qed


lemma storable_second_read: "storable second_read"
  by (simp add: storable_def safe_text_def second_read_def TaskTracker5_def INT_MIN_def
      INT_MAX_def)

text \<open>
  Claim C4 asks that after a successful delete the record is gone from both listings,
  also after save-and-reload, and that a second delete of the id reports not found.
  One add whose description holds an \<open>updatedAt\<close> key and an \<open>id\<close> key is saved
  unescaped, and the next process reads two live records with id 1 from that file.
  \<open>delete 1\<close> succeeds; the file it leaves still holds a record with id 1, which
  \<open>list\<close> prints in the next process; and a second \<open>delete 1\<close> succeeds as well.
\<close>

theorem second_delete_succeeds:
  "printed (main [''task-cli'', ''add'', forged] ''Mon'' None)
     = [''Task added successfully (ID: 1)'']
   \<and> TaskManager_new (file_after (main [''task-cli'', ''add'', forged] ''Mon'' None))
     = Some (Inr \<lparr>tasks = [first_read, second_read], nextId = 2,
          disk = file_after (main [''task-cli'', ''add'', forged] ''Mon'' None)\<rparr>)
   \<and> getId first_read = 1 \<and> getId second_read = 1
   \<and> \<not> isTaskDeleted first_read \<and> \<not> isTaskDeleted second_read
   \<and> printed (main [''task-cli'', ''delete'', ''1''] ''Tue''
        (file_after (main [''task-cli'', ''add'', forged] ''Mon'' None)))
     = [''Task deleted successfully'']
   \<and> printed (main [''task-cli'', ''list''] ''Wed''
        (file_after (main [''task-cli'', ''delete'', ''1''] ''Tue''
          (file_after (main [''task-cli'', ''add'', forged] ''Mon'' None)))))
     = display second_read
   \<and> display second_read
     = [''ID: 1 |  1,\<newline>     | Status: todo | Created: Mon | Updated: Mon'']
   \<and> printed (main [''task-cli'', ''delete'', ''1''] ''Wed''
        (file_after (main [''task-cli'', ''delete'', ''1''] ''Tue''
          (file_after (main [''task-cli'', ''add'', forged] ''Mon'' None)))))
     = [''Task deleted successfully'']"
proof -
  note ev = main_def main_body_def addTask_def INT_MAX_def TaskTracker_addTask_def
    TaskTracker1_def getId_def to_string_def dec_digits.simps digit_char_def
  define m2 where "m2 = \<lparr>tasks = [first_read\<lparr>isDeleted := True\<rparr>, second_read], nextId = 2,
      disk = Some forged_file\<rparr>"
  have s1: "stoi ''1'' = Inr 1"
    by (simp add: stoi_def isspace_def isdigit_def digit_val_def INT_MAX_def INT_MIN_def)
  have live: "getId first_read = 1" "getId second_read = 1"
    "\<not> isTaskDeleted first_read" "\<not> isTaskDeleted second_read"
    by (simp_all add: first_read_def second_read_def TaskTracker5_def getId_def isTaskDeleted_def)
  have d: "display second_read
      = [''ID: 1 |  1,\<newline>     | Status: todo | Created: Mon | Updated: Mon'']"
    by (simp add: display_def second_read_def TaskTracker5_def to_string_def dec_digits.simps
        digit_char_def)
  have 1: "main [''task-cli'', ''add'', forged] ''Mon'' None
      = Some (Inr (0, [''Task added successfully (ID: 1)''],
          saveTasks \<lparr>tasks = [\<lparr>task_id = 1, isDeleted = False, desc = forged, status = ''todo'',
            createdAt = ''Mon'', updatedAt = ''Mon''\<rparr>], nextId = 2, disk = None\<rparr>))"
    by (simp add: ev TaskManager_new_def loadTasks_def)
  have f1: "file_after (main [''task-cli'', ''add'', forged] ''Mon'' None) = Some forged_file"
    unfolding 1 by (simp add: file_after_def forged_saved)
  have 2: "main [''task-cli'', ''delete'', ''1''] ''Tue'' (Some forged_file)
      = Some (Inr (0, [''Task deleted successfully''], saveTasks m2))"
    using live
    by (simp add: main_def main_body_def forged_new s1 deleteTask_def TaskTracker_deleteTask_def
        m2_def)
  have f2: "file_after (main [''task-cli'', ''delete'', ''1''] ''Tue'' (Some forged_file))
      = disk (saveTasks m2)"
    unfolding 2 by (simp add: file_after_def)
  have r2: "TaskManager_new (disk (saveTasks m2))
      = Some (Inr \<lparr>tasks = [second_read], nextId = 2, disk = disk (saveTasks m2)\<rparr>)"
    unfolding m2_def
    by (subst reload_small)
      (simp_all add: storable_second_read next_after_def live [unfolded isTaskDeleted_def],
       simp_all add: saveTasks_def isTaskDeleted_def toJson_def to_string_def dec_digits.simps
         digit_char_def max_size_def first_read_def second_read_def TaskTracker5_def)
  have 3: "main [''task-cli'', ''list''] ''Wed'' (disk (saveTasks m2))
      = Some (Inr (0, display second_read,
          \<lparr>tasks = [second_read], nextId = 2, disk = disk (saveTasks m2)\<rparr>))"
    using live by (simp add: main_def main_body_def r2 listAllTasks_def d)
  obtain m4 where 4: "main [''task-cli'', ''delete'', ''1''] ''Wed'' (disk (saveTasks m2))
      = Some (Inr (0, [''Task deleted successfully''], m4))"
    using live by (simp add: main_def main_body_def r2 s1 deleteTask_def)
  show ?thesis
    unfolding f1 f2
    using live d by (simp add: 1 2 3 4 printed_def forged_new)
qed

section \<open>Deletion where ids are distinct\<close>

lemma deleteTask_success:
  assumes "fst (deleteTask i m) = [''Task deleted successfully'']"
  shows "\<exists>pre t post. tasks m = pre @ t # post \<and> (\<forall>x\<in>set pre. \<not> live_with i x) \<and> live_with i t
           \<and> snd (deleteTask i m) = saveTasks (m\<lparr>tasks := pre @ TaskTracker_deleteTask t # post\<rparr>)"
proof (cases "change_first TaskTracker_deleteTask i (tasks m)")
  case None
  with assms not_found_neq(2) [of i] show ?thesis
    by (simp add: deleteTask_def deleteTask_loop_change)
next
  case (Some ts')
  from change_first_Some [OF Some] obtain pre t post where
    "tasks m = pre @ t # post" "\<forall>x\<in>set pre. \<not> live_with i x" "live_with i t"
    "ts' = pre @ TaskTracker_deleteTask t # post"
    by blast
  with Some show ?thesis
    by (auto simp: deleteTask_def deleteTask_loop_change)
qed

text \<open>
  Deletion in a store whose live tasks have distinct ids. Let \<open>deleteTask i\<close> succeed.
  The task it found, at position \<open>k\<close> of the vector, is tombstoned and stays so through
  every later run of operations; all along \<open>listAllTasks\<close> and \<open>listTasksByStatus\<close>
  print what they would print with that task removed from the vector, and the file
  holds what \<open>saveTasks\<close> would write with that task removed. A second \<open>deleteTask i\<close>
  prints the not-found line. When the live tasks are storable, a new manager reading
  the file after the deletion holds exactly the tasks that are still live, none of
  them with id \<open>i\<close>, and \<open>deleteTask i\<close> on it prints the not-found line as well.
\<close>

theorem delete_is_permanent:
  assumes ok: "fst (deleteTask i m) = [''Task deleted successfully'']"
    and uniq: "distinct (map getId (listed m))"
  shows "(\<exists>k<length (tasks m). live_with i (tasks m ! k) \<and>
           (\<forall>ops m'. run ops (snd (deleteTask i m)) = Inr m' \<longrightarrow>
              k < length (tasks m') \<and> isTaskDeleted (tasks m' ! k)
              \<and> listAllTasks m' = listAllTasks (erase_nth k m')
              \<and> (\<forall>st. listTasksByStatus st m' = listTasksByStatus st (erase_nth k m'))
              \<and> disk m' = disk (saveTasks (erase_nth k m'))))
       \<and> fst (deleteTask i (snd (deleteTask i m))) = not_found i
       \<and> ((\<forall>t\<in>set (listed m). storable t)
            \<and> Suc (length (the (disk (snd (deleteTask i m))))) < max_size \<longrightarrow>
           (\<exists>reloaded. TaskManager_new (disk (snd (deleteTask i m))) = Some (Inr reloaded)
              \<and> tasks reloaded = listed (snd (deleteTask i m))
              \<and> (\<forall>t\<in>set (tasks reloaded). getId t \<noteq> i)
              \<and> fst (deleteTask i reloaded) = not_found i))"
proof -
  from deleteTask_success [OF ok] obtain pre t post where
    p: "tasks m = pre @ t # post" "\<forall>x\<in>set pre. \<not> live_with i x" "live_with i t"
       "snd (deleteTask i m) = saveTasks (m\<lparr>tasks := pre @ TaskTracker_deleteTask t # post\<rparr>)"
    by blast
  let ?k = "length pre"
  let ?m1 = "snd (deleteTask i m)"
  have k: "?k < length (tasks m)" "tasks m ! ?k = t" using p(1) by simp_all
  have k1: "?k < length (tasks ?m1)" "isTaskDeleted (tasks ?m1 ! ?k)"
    using p(4) by (simp_all add: TaskTracker_deleteTask_def isTaskDeleted_def)
  have s1: "saved ?m1" using p(4) by simp
  have later: "?k < length (tasks m') \<and> isTaskDeleted (tasks m' ! ?k)
              \<and> listAllTasks m' = listAllTasks (erase_nth ?k m')
              \<and> (\<forall>st. listTasksByStatus st m' = listTasksByStatus st (erase_nth ?k m'))
              \<and> disk m' = disk (saveTasks (erase_nth ?k m'))"
    if r: "run ops ?m1 = Inr m'" for ops m'
  proof -
    from run_keeps_deleted [OF k1 r] k1(2)
    have d: "?k < length (tasks m')" "isTaskDeleted (tasks m' ! ?k)" by simp_all
    from run_saved [OF s1 r] have "disk m' = disk (saveTasks m')" by (simp add: saved_def)
    with d erased_unseen [OF d] show ?thesis by simp
  qed
  have "\<not> live_with i x" if x: "x \<in> set post" for x
  proof
    assume l: "live_with i x"
    with p(3) have "\<not> isTaskDeleted t" "\<not> isTaskDeleted x" "getId x = getId t"
      by (simp_all add: live_with_def)
    moreover from uniq p(1) have "distinct (map getId (filter (\<lambda>t. \<not> isTaskDeleted t) (t # post)))"
      by (simp add: listed_def)
    ultimately show False using x by (auto simp: image_iff)
  qed
  with p(2) have "\<forall>x\<in>set (pre @ TaskTracker_deleteTask t # post). \<not> live_with i x"
    by (auto simp: live_with_def TaskTracker_deleteTask_def isTaskDeleted_def)
  then have none: "\<forall>x\<in>set (tasks ?m1). \<not> live_with i x" using p(4) by simp
  from op_not_found [OF this] have 2: "fst (deleteTask i ?m1) = not_found i" by simp
  have 3: "\<exists>reloaded. TaskManager_new (disk ?m1) = Some (Inr reloaded)
              \<and> tasks reloaded = listed ?m1
              \<and> (\<forall>t\<in>set (tasks reloaded). getId t \<noteq> i)
              \<and> fst (deleteTask i reloaded) = not_found i"
    if st: "\<forall>t\<in>set (listed m). storable t"
      and len: "Suc (length (the (disk ?m1))) < max_size"
  proof -
    have sub: "set (listed ?m1) \<subseteq> set (listed m)"
      using p(1,4) by (auto simp: listed_def TaskTracker_deleteTask_def isTaskDeleted_def)
    with st have st1: "\<forall>t\<in>set (listed ?m1). storable t" by blast
    from s1 have d: "disk ?m1 = disk (saveTasks ?m1)" by (simp add: saved_def)
    from len d have len1: "Suc (length (the (disk (saveTasks ?m1)))) < max_size" by simp
    let ?r = "\<lparr>tasks = listed ?m1, nextId = next_after 1 (listed ?m1), disk = disk (saveTasks ?m1)\<rparr>"
    from reload_saved [OF st1 len1] d have r: "TaskManager_new (disk ?m1) = Some (Inr ?r)"
      by simp
    have nl: "\<forall>x\<in>set (tasks ?r). \<not> live_with i x"
      using none by (simp add: listed_def)
    then have "\<forall>t\<in>set (tasks ?r). getId t \<noteq> i"
      by (auto simp: listed_def live_with_def)
    moreover from op_not_found [OF nl] have "fst (deleteTask i ?r) = not_found i" by simp
    ultimately show ?thesis using r by simp
  qed
  from k p(3) later 2 3 show ?thesis by blast
qed

theorem delete_is_permanent_witness:
  "listAllTasks example_manager = display example_task
   \<and> fst (deleteTask 1 example_manager) = [''Task deleted successfully'']
   \<and> listAllTasks (snd (deleteTask 1 example_manager)) = [''No tasks found'']
   \<and> listTasksByStatus ''todo'' (snd (deleteTask 1 example_manager))
        = [''No tasks found with status: todo'']
   \<and> fst (deleteTask 1 (snd (deleteTask 1 example_manager))) = not_found 1
   \<and> map_option (map_sum id tasks) (TaskManager_new (disk (snd (deleteTask 1 example_manager))))
        = Some (Inr [])"
proof -
  let ?m1 = "snd (deleteTask 1 example_manager)"
  have a: "listAllTasks example_manager = display example_task"
    by (simp add: listAllTasks_def example_manager_def example_task_def TaskTracker5_def
        isTaskDeleted_def)
  have ok: "fst (deleteTask 1 example_manager) = [''Task deleted successfully'']"
    by (simp add: deleteTask_def example_manager_def example_task_def TaskTracker5_def getId_def
        isTaskDeleted_def)
  have uniq: "distinct (map getId (listed example_manager))"
    by (simp add: listed_def example_manager_def)
  have st: "\<forall>t\<in>set (listed example_manager). storable t"
    by (simp add: listed_def example_manager_def example_task_def TaskTracker5_def storable_def
        safe_text_def INT_MIN_def INT_MAX_def)
  have m1: "?m1 = \<lparr>tasks = [TaskTracker_deleteTask example_task], nextId = 2,
      disk = Some ''[\<newline>\<newline>]''\<rparr>"
    by (simp add: deleteTask_def example_manager_def example_task_def TaskTracker5_def getId_def
        isTaskDeleted_def saveTasks_def TaskTracker_deleteTask_def)
  have len: "Suc (length (the (disk ?m1))) < max_size"
    unfolding m1 by (simp add: max_size_def)
  have r: "run [] ?m1 = Inr ?m1" by simp
  from delete_is_permanent [OF ok uniq] r st len obtain k reloaded where
    k: "k < length (tasks example_manager)"
       "listAllTasks ?m1 = listAllTasks (erase_nth k ?m1)"
       "\<forall>st. listTasksByStatus st ?m1 = listTasksByStatus st (erase_nth k ?m1)"
    and 2: "fst (deleteTask 1 ?m1) = not_found 1"
    and 3: "TaskManager_new (disk ?m1) = Some (Inr reloaded)" "tasks reloaded = listed ?m1"
    by blast
  from k(1) have k0: "k = 0" by (simp add: example_manager_def)
  then have e: "tasks (erase_nth k ?m1) = []" by (simp add: erase_nth_def m1)
  then have "listAllTasks (erase_nth k ?m1) = [''No tasks found'']"
    and "listTasksByStatus ''todo'' (erase_nth k ?m1) = [''No tasks found with status: todo'']"
    by (simp_all add: listAllTasks_def listTasksByStatus_def)
  moreover have "listed ?m1 = []"
    by (simp add: m1 listed_def TaskTracker_deleteTask_def isTaskDeleted_def)
  ultimately show ?thesis using k(2,3) a ok 2 3 by simp
qed

end
